theory Spec2Isabelle
  imports Main "HOL-Library.Char_ord" "HOL-Library.List_Lexorder" "HOL-Library.Option_ord"
    "HOL-Library.Product_Lexorder"
begin

section \<open>Python values and exceptions\<close>

text \<open>
  The exceptions that the modelled code can raise. \<open>PydanticError\<close> is the error a
  pydantic model raises at construction (a failed type check, a missing required field, or a
  \<open>ValueError\<close> raised by a field validator); \<open>OperationalError\<close> is the engine's
  error for a statement it cannot run (\<open>no such table\<close>); \<open>OverflowError\<close> is raised when
  a Python integer that does not fit 64 bits is bound to a statement parameter.
\<close>

datatype exn = PydanticError | TypeError | AttributeError | KeyError | OverflowError
  | OperationalError

text \<open>
  A deserialized JSON document (\<open>json.load\<close>). A Python \<open>str\<close> is a list of code points;
  the model covers the code points below 256, a \<open>char\<close> standing for the code point of the
  same number. Floats are not modelled.
\<close>

datatype json = JNull | JBool bool | JInt int | JStr string | JArr "json list"
  | JObj "(string \<times> json) list"

text \<open>\<open>d.get(key, default)\<close> on a dictionary.\<close>

definition dict_get :: "(string \<times> json) list \<Rightarrow> string \<Rightarrow> json \<Rightarrow> json" where
  "dict_get d k dflt = (case map_of d k of None \<Rightarrow> dflt | Some v \<Rightarrow> v)"

text \<open>Iteration (\<open>for x in v\<close>): a dictionary yields its keys, a string its characters.\<close>

definition py_iter :: "json \<Rightarrow> exn + json list" where
  "py_iter v = (case v of
      JArr xs \<Rightarrow> Inr xs
    | JObj d \<Rightarrow> Inr (map (\<lambda>kv. JStr (fst kv)) d)
    | JStr s \<Rightarrow> Inr (map (\<lambda>c. JStr [c]) s)
    | _ \<Rightarrow> Inl TypeError)"

text \<open>Truth value of a value in a condition (\<open>if edges_data:\<close>).\<close>

definition truthy :: "json \<Rightarrow> bool" where
  "truthy v = (case v of
      JNull \<Rightarrow> False
    | JBool b \<Rightarrow> b
    | JInt n \<Rightarrow> n \<noteq> 0
    | JStr s \<Rightarrow> s \<noteq> []
    | JArr xs \<Rightarrow> xs \<noteq> []
    | JObj d \<Rightarrow> d \<noteq> [])"

text \<open>
  \<open>str.isspace\<close> on one character, for the code points below 256: the controls
  U+0009 to U+000D and U+001C to U+001F, the space, U+0085 and U+00A0.
\<close>

definition isspace :: "char \<Rightarrow> bool" where
  "isspace c = (let n = (of_char c :: nat) in
     (9 \<le> n \<and> n \<le> 13) \<or> (28 \<le> n \<and> n \<le> 32) \<or> n = 133 \<or> n = 160)"

text \<open>\<open>str.strip()\<close>: whitespace removed at both ends.\<close>

definition lstrip :: "string \<Rightarrow> string" where
  "lstrip s = dropWhile isspace s"

definition rstrip :: "string \<Rightarrow> string" where
  "rstrip s = rev (dropWhile isspace (rev s))"

definition strip :: "string \<Rightarrow> string" where
  "strip s = rstrip (lstrip s)"

text \<open>Running a fallible step over a list, stopping at the first exception
  (a list comprehension or a \<open>for\<close> loop that appends).\<close>

fun map_exn :: "('a \<Rightarrow> exn + 'b) \<Rightarrow> 'a list \<Rightarrow> exn + 'b list" where
  "map_exn f [] = Inr []"
| "map_exn f (x # xs) =
     (case f x of
        Inl e \<Rightarrow> Inl e
      | Inr y \<Rightarrow> (case map_exn f xs of Inl e \<Rightarrow> Inl e | Inr ys \<Rightarrow> Inr (y # ys)))"

section \<open>Document model (\<open>callgraph/model/callgraph.py\<close>)\<close>

record Function =
  f_id :: string
  f_name :: string
  f_file :: "string option"
  f_signature :: "string option"

record CallSite =
  cs_id :: string
  cs_caller :: string
  cs_callee :: string
  cs_file :: "string option"
  cs_line :: "int option"

record Edge =
  e_caller :: string
  e_callee :: string
  e_callsite_id :: "string option"

record CallGraph =
  g_functions :: "Function list"
  g_callsites :: "CallSite list"
  g_edges :: "Edge list"

text \<open>
  The field validator \<open>not_empty\<close>, the same in \<open>Function\<close>, \<open>CallSite\<close> and \<open>Edge\<close>:
  \<^verbatim>\<open>if not v or not v.strip(): raise ValueError(...)\<close>, then \<^verbatim>\<open>return v.strip()\<close>.
  The value it returns is the value the model stores.
\<close>

definition not_empty :: "string \<Rightarrow> exn + string" where
  "not_empty v = (if v = [] \<or> strip v = [] then Inl PydanticError else Inr (strip v))"

text \<open>\<open>CallSite.valid_line\<close>: \<^verbatim>\<open>if v is not None and v < 1: raise ValueError(...)\<close>.\<close>

definition valid_line :: "int option \<Rightarrow> exn + int option" where
  "valid_line v = (case v of
      None \<Rightarrow> Inr None
    | Some n \<Rightarrow> (if n < 1 then Inl PydanticError else Inr (Some n)))"

text \<open>
  A required \<open>str\<close> field with \<open>not_empty\<close> as its validator: the keyword must be given and
  be a string (\<open>None\<close> is not one), and the validator runs on it.
\<close>

definition required_str :: "json option \<Rightarrow> exn + string" where
  "required_str v = (case v of Some (JStr s) \<Rightarrow> not_empty s | _ \<Rightarrow> Inl PydanticError)"

text \<open>An \<open>Optional[str]\<close> field with default \<open>None\<close> and no validator.\<close>

definition optional_str :: "json option \<Rightarrow> exn + string option" where
  "optional_str v = (case v of
      None \<Rightarrow> Inr None
    | Some JNull \<Rightarrow> Inr None
    | Some (JStr s) \<Rightarrow> Inr (Some s)
    | _ \<Rightarrow> Inl PydanticError)"

text \<open>
  The \<open>Optional[int]\<close> field \<open>line\<close>, with \<open>valid_line\<close> as its validator. An integer is
  taken as it is. What the validation library makes of any other value (it converts some
  strings and booleans to integers) is not in the repository: it is the parameter \<open>lax\<close>.
\<close>

definition optional_line :: "(json \<Rightarrow> int option) \<Rightarrow> json option \<Rightarrow> exn + int option" where
  "optional_line lax v = (case v of
      None \<Rightarrow> Inr None
    | Some JNull \<Rightarrow> Inr None
    | Some (JInt n) \<Rightarrow> valid_line (Some n)
    | Some x \<Rightarrow> (case lax x of None \<Rightarrow> Inl PydanticError | Some n \<Rightarrow> valid_line (Some n)))"

text \<open>
  The constructors, called with keyword arguments (an association list from keyword to
  value; unknown keywords are ignored). Every failure of a field is reported by the one
  exception the library raises.
\<close>

definition Function_init :: "(string \<times> json) list \<Rightarrow> exn + Function" where
  "Function_init kw =
     (case (required_str (map_of kw ''id''), required_str (map_of kw ''name''),
            optional_str (map_of kw ''file''), optional_str (map_of kw ''signature'')) of
        (Inr i, Inr n, Inr fl, Inr sg) \<Rightarrow>
          Inr \<lparr>f_id = i, f_name = n, f_file = fl, f_signature = sg\<rparr>
      | _ \<Rightarrow> Inl PydanticError)"

definition CallSite_init :: "(json \<Rightarrow> int option) \<Rightarrow> (string \<times> json) list \<Rightarrow> exn + CallSite" where
  "CallSite_init lax kw =
     (case (required_str (map_of kw ''id''), required_str (map_of kw ''caller''),
            required_str (map_of kw ''callee''), optional_str (map_of kw ''file''),
            optional_line lax (map_of kw ''line'')) of
        (Inr i, Inr c, Inr k, Inr fl, Inr ln) \<Rightarrow>
          Inr \<lparr>cs_id = i, cs_caller = c, cs_callee = k, cs_file = fl, cs_line = ln\<rparr>
      | _ \<Rightarrow> Inl PydanticError)"

definition Edge_init :: "(string \<times> json) list \<Rightarrow> exn + Edge" where
  "Edge_init kw =
     (case (required_str (map_of kw ''caller''), required_str (map_of kw ''callee''),
            optional_str (map_of kw ''callsite_id'')) of
        (Inr c, Inr k, Inr cs) \<Rightarrow> Inr \<lparr>e_caller = c, e_callee = k, e_callsite_id = cs\<rparr>
      | _ \<Rightarrow> Inl PydanticError)"

text \<open>\<open>Function(**f)\<close>: the argument of \<open>**\<close> must be a mapping.\<close>

definition Function_of :: "json \<Rightarrow> exn + Function" where
  "Function_of f = (case f of JObj kw \<Rightarrow> Function_init kw | _ \<Rightarrow> Inl TypeError)"

text \<open>
  One call-site record of \<open>from_dict\<close>: the record is read with \<open>cs.get\<close>, the aliases
  \<open>caller_id\<close> and \<open>callee_id\<close> being the defaults of \<open>caller\<close> and \<open>callee\<close>, and
  all five keywords are passed on (an absent key as \<open>None\<close>).
\<close>

definition callsite_of :: "(json \<Rightarrow> int option) \<Rightarrow> json \<Rightarrow> exn + CallSite" where
  "callsite_of lax cs =
     (case cs of
        JObj d \<Rightarrow>
          CallSite_init lax
            [(''id'', dict_get d ''id'' JNull),
             (''caller'', dict_get d ''caller'' (dict_get d ''caller_id'' JNull)),
             (''callee'', dict_get d ''callee'' (dict_get d ''callee_id'' JNull)),
             (''file'', dict_get d ''file'' JNull),
             (''line'', dict_get d ''line'' JNull)]
      | _ \<Rightarrow> Inl AttributeError)"

text \<open>One record of an explicit \<open>edges\<close> list.\<close>

definition edge_of :: "json \<Rightarrow> exn + Edge" where
  "edge_of e =
     (case e of
        JObj d \<Rightarrow>
          Edge_init
            [(''caller'', dict_get d ''caller'' (dict_get d ''caller_id'' JNull)),
             (''callee'', dict_get d ''callee'' (dict_get d ''callee_id'' JNull)),
             (''callsite_id'', dict_get d ''callsite_id'' JNull)]
      | _ \<Rightarrow> Inl AttributeError)"

text \<open>The edge derived from a call site:
  \<^verbatim>\<open>Edge(caller=cs.caller, callee=cs.callee, callsite_id=cs.id)\<close>.\<close>

definition derived_edge :: "CallSite \<Rightarrow> exn + Edge" where
  "derived_edge cs =
     Edge_init [(''caller'', JStr (cs_caller cs)), (''callee'', JStr (cs_callee cs)),
                (''callsite_id'', JStr (cs_id cs))]"

text \<open>
  \<open>CallGraph.from_dict\<close>. The call sites are read from the key \<open>callsites\<close>, and from
  \<open>callSites\<close> when \<open>callsites\<close> is absent; no other key is read for them. The edges are
  parsed from \<open>edges\<close> when that value is truthy and derived from the call sites otherwise.
\<close>

definition from_dict :: "(json \<Rightarrow> int option) \<Rightarrow> (string \<times> json) list \<Rightarrow> exn + CallGraph" where
  "from_dict lax data =
     (let functions_data = dict_get data ''functions'' (JArr []);
          callsites_data = dict_get data ''callsites'' (dict_get data ''callSites'' (JArr []));
          edges_data = dict_get data ''edges'' (JArr [])
      in case py_iter functions_data of
           Inl e \<Rightarrow> Inl e
         | Inr fjs \<Rightarrow>
        (case map_exn Function_of fjs of
           Inl e \<Rightarrow> Inl e
         | Inr fs \<Rightarrow>
        (case py_iter callsites_data of
           Inl e \<Rightarrow> Inl e
         | Inr cjs \<Rightarrow>
        (case map_exn (callsite_of lax) cjs of
           Inl e \<Rightarrow> Inl e
         | Inr css \<Rightarrow>
        (case (if truthy edges_data
               then (case py_iter edges_data of
                       Inl e \<Rightarrow> Inl e
                     | Inr ejs \<Rightarrow> map_exn edge_of ejs)
               else map_exn derived_edge css) of
           Inl e \<Rightarrow> Inl e
         | Inr es \<Rightarrow> Inr \<lparr>g_functions = fs, g_callsites = css, g_edges = es\<rparr>)))))"

section \<open>Validator (\<open>callgraph/validate/validator.py\<close>)\<close>

text \<open>
  \<open>ValidationError\<close> carries a message. Each constructor is one of the five \<open>raise\<close>
  statements of \<open>validate_callgraph\<close>, with the list the message is joined from;
  \<open>error_message\<close> is the text.
\<close>

datatype ValidationError =
    NoFunctions
  | DuplicateFunctions "string list"
  | DuplicateCallsites "string list"
  | InvalidCallsiteRefs "string list"
  | InvalidEdgeRefs "string list"

text \<open>\<open>sep.join(xs)\<close>.\<close>

fun join :: "string \<Rightarrow> string list \<Rightarrow> string" where
  "join sep [] = []"
| "join sep [x] = x"
| "join sep (x # y # ys) = x @ sep @ join sep (y # ys)"

definition error_message :: "ValidationError \<Rightarrow> string" where
  "error_message e = (case e of
      NoFunctions \<Rightarrow> ''Call graph must contain at least one function''
    | DuplicateFunctions ds \<Rightarrow> ''Duplicate function IDs found: '' @ join '', '' ds
    | DuplicateCallsites ds \<Rightarrow> ''Duplicate callsite IDs found: '' @ join '', '' ds
    | InvalidCallsiteRefs vs \<Rightarrow>
        ''Invalid function references in callsites:'' @ [CHR 0x0A] @ join [CHR 0x0A] vs
    | InvalidEdgeRefs vs \<Rightarrow> ''Invalid references in edges:'' @ [CHR 0x0A] @ join [CHR 0x0A] vs)"

text \<open>The decimal text of an index, as an f-string formats it.\<close>

fun str_of_nat :: "nat \<Rightarrow> string" where
  "str_of_nat n =
     (if n < 10 then [char_of (48 + n)]
      else str_of_nat (n div 10) @ [char_of (48 + n mod 10)])"

declare str_of_nat.simps [simp del]

text \<open>
  The loop over \<open>graph.functions\<close>: the set of ids seen so far and the list of ids met
  again, in the order they are met.
\<close>

fun scan_ids :: "string set \<Rightarrow> string list \<Rightarrow> string list \<Rightarrow> string set \<times> string list" where
  "scan_ids seen dups [] = (seen, dups)"
| "scan_ids seen dups (x # xs) =
     scan_ids (insert x seen) (if x \<in> seen then dups @ [x] else dups) xs"

text \<open>The two messages a call site can add to \<open>invalid_callsite_refs\<close>.\<close>

definition callsite_refs :: "string set \<Rightarrow> CallSite \<Rightarrow> string list" where
  "callsite_refs function_ids cs =
     (if cs_caller cs \<notin> function_ids
      then [''Callsite '' @ cs_id cs @ '': caller '' @ [CHR 0x27] @ cs_caller cs @ [CHR 0x27]
            @ '' not found'']
      else []) @
     (if cs_callee cs \<notin> function_ids
      then [''Callsite '' @ cs_id cs @ '': callee '' @ [CHR 0x27] @ cs_callee cs @ [CHR 0x27]
            @ '' not found'']
      else [])"

text \<open>
  The loop over \<open>graph.callsites\<close>, with its three accumulators \<open>callsite_ids\<close>,
  \<open>duplicate_callsites\<close> and \<open>invalid_callsite_refs\<close>.
\<close>

fun scan_callsites ::
  "string set \<Rightarrow> string set \<times> string list \<times> string list \<Rightarrow> CallSite list
   \<Rightarrow> string set \<times> string list \<times> string list" where
  "scan_callsites function_ids acc [] = acc"
| "scan_callsites function_ids (ids, dups, refs) (cs # css) =
     scan_callsites function_ids
       (insert (cs_id cs) ids,
        (if cs_id cs \<in> ids then dups @ [cs_id cs] else dups),
        refs @ callsite_refs function_ids cs) css"

text \<open>The messages an edge at index \<open>i\<close> can add to \<open>invalid_edge_refs\<close>. The call site is
  checked only when \<open>edge.callsite_id\<close> is truthy (not \<open>None\<close>, not empty).\<close>

definition edge_refs :: "string set \<Rightarrow> string set \<Rightarrow> nat \<Rightarrow> Edge \<Rightarrow> string list" where
  "edge_refs function_ids callsite_ids i e =
     (if e_caller e \<notin> function_ids
      then [''Edge '' @ str_of_nat i @ '': caller '' @ [CHR 0x27] @ e_caller e @ [CHR 0x27]
            @ '' not found'']
      else []) @
     (if e_callee e \<notin> function_ids
      then [''Edge '' @ str_of_nat i @ '': callee '' @ [CHR 0x27] @ e_callee e @ [CHR 0x27]
            @ '' not found'']
      else []) @
     (case e_callsite_id e of
        None \<Rightarrow> []
      | Some c \<Rightarrow>
          (if c \<noteq> [] \<and> c \<notin> callsite_ids
           then [''Edge '' @ str_of_nat i @ '': callsite '' @ [CHR 0x27] @ c @ [CHR 0x27]
                 @ '' not found'']
           else []))"

fun scan_edges :: "string set \<Rightarrow> string set \<Rightarrow> nat \<Rightarrow> string list \<Rightarrow> Edge list \<Rightarrow> string list" where
  "scan_edges function_ids callsite_ids i refs [] = refs"
| "scan_edges function_ids callsite_ids i refs (e # es) =
     scan_edges function_ids callsite_ids (Suc i)
       (refs @ edge_refs function_ids callsite_ids i e) es"

text \<open>
  \<open>validate_callgraph\<close>. The checks run in the order of the source and each has its own
  \<open>raise\<close>: the duplicate call-site ids are raised before the invalid references of the
  call sites are looked at.
\<close>

definition validate_callgraph :: "CallGraph \<Rightarrow> ValidationError + unit" where
  "validate_callgraph graph =
     (if g_functions graph = [] then Inl NoFunctions
      else
        let (function_ids, duplicate_functions) =
              scan_ids {} [] (map f_id (g_functions graph))
        in if duplicate_functions \<noteq> [] then Inl (DuplicateFunctions duplicate_functions)
        else
          let (callsite_ids, duplicate_callsites, invalid_callsite_refs) =
                scan_callsites function_ids ({}, [], []) (g_callsites graph)
          in if duplicate_callsites \<noteq> [] then Inl (DuplicateCallsites duplicate_callsites)
          else if invalid_callsite_refs \<noteq> [] then Inl (InvalidCallsiteRefs invalid_callsite_refs)
          else
            let invalid_edge_refs = scan_edges function_ids callsite_ids 0 [] (g_edges graph)
            in if invalid_edge_refs \<noteq> [] then Inl (InvalidEdgeRefs invalid_edge_refs)
            else Inr ())"

section \<open>Storage (\<open>callgraph/schema/ddl.py\<close>, \<open>ladybugdb.py\<close>, \<open>callgraph/loader/db.py\<close>)\<close>

text \<open>
  The three tables of \<open>DB_SCHEMA\<close>, each a list of rows in the order of insertion. The
  engine behind \<open>ladybugdb.Connection\<close> is SQLite, through Python's \<open>sqlite3\<close>. The
  columns declared \<open>NOT NULL\<close> hold a value in every row, so \<open>depth\<close> is an integer and
  not an optional one. The surrogate key \<open>edges.id\<close> is never read and is left out. Foreign
  keys are declared but the connection does not switch their enforcement on.
\<close>

record function_row =
  fr_id :: string
  fr_name :: string
  fr_file :: "string option"
  fr_signature :: "string option"

record callsite_row =
  cr_id :: string
  cr_caller_function_id :: string
  cr_callee_function_id :: string
  cr_file :: "string option"
  cr_line :: "int option"

record edge_row =
  er_caller_function_id :: string
  er_callee_function_id :: string
  er_callsite_id :: "string option"
  er_depth :: int

record tables =
  t_functions :: "function_row list"
  t_callsites :: "callsite_row list"
  t_edges :: "edge_row list"

text \<open>
  A database file with one connection: whether the tables have been created
  (\<open>init_schema\<close>), the committed tables, and the tables as the connection sees them, with
  the writes of its open transaction. A write statement opens a transaction implicitly.
\<close>

record db =
  has_schema :: bool
  committed :: tables
  working :: tables

definition commit :: "db \<Rightarrow> db" where
  "commit d = d\<lparr>committed := working d\<rparr>"

definition rollback :: "db \<Rightarrow> db" where
  "rollback d = d\<lparr>working := committed d\<rparr>"

definition init_schema :: "db \<Rightarrow> db" where
  "init_schema d = commit (d\<lparr>has_schema := True\<rparr>)"

definition empty_tables :: tables where
  "empty_tables = \<lparr>t_functions = [], t_callsites = [], t_edges = []\<rparr>"

text \<open>A database file that has just been created, before \<open>init_schema\<close>.\<close>

definition new_db :: db where
  "new_db = \<lparr>has_schema = False, committed = empty_tables, working = empty_tables\<rparr>"

text \<open>
  An object on which the callers invoke cursor methods: the cursor that
  \<open>Connection.execute\<close> returns, or the list of dictionaries that \<open>DB.execute\<close>
  returns. A list has neither \<open>fetchone\<close> nor \<open>fetchall\<close>; both can be iterated.
\<close>

datatype 'r pyobj = PyCursor "'r list" | PyList "'r list"

definition fetchone :: "'r pyobj \<Rightarrow> exn + 'r option" where
  "fetchone c = (case c of
      PyCursor rows \<Rightarrow> Inr (case rows of [] \<Rightarrow> None | r # _ \<Rightarrow> Some r)
    | PyList rows \<Rightarrow> Inl AttributeError)"

definition fetchall :: "'r pyobj \<Rightarrow> exn + 'r list" where
  "fetchall c = (case c of PyCursor rows \<Rightarrow> Inr rows | PyList rows \<Rightarrow> Inl AttributeError)"

definition iter_rows :: "'r pyobj \<Rightarrow> 'r list" where
  "iter_rows c = (case c of PyCursor rows \<Rightarrow> rows | PyList rows \<Rightarrow> rows)"

text \<open>
  \<open>Connection.execute\<close> for a \<open>SELECT\<close>, the query being given by the rows it selects
  from the tables. Without the tables the engine raises (\<open>no such table\<close>).
\<close>

definition conn_execute :: "db \<Rightarrow> (tables \<Rightarrow> 'r list) \<Rightarrow> exn + 'r pyobj" where
  "conn_execute d q =
     (if has_schema d then Inr (PyCursor (q (working d))) else Inl OperationalError)"

text \<open>
  \<open>DB.execute\<close>: the rows are fetched into a list; \<open>except Exception\<close> logs the error
  and returns the empty list.
\<close>

definition DB_execute :: "db \<Rightarrow> (tables \<Rightarrow> 'r list) \<Rightarrow> 'r list" where
  "DB_execute d q =
     (case conn_execute d q of
        Inl e \<Rightarrow> []
      | Inr cursor \<Rightarrow> (case fetchall cursor of Inl e \<Rightarrow> [] | Inr records \<Rightarrow> records))"

text \<open>
  \<open>Connection.execute\<close> for a write statement, given by its effect on the tables for one
  tuple of parameters. A statement that raises changes nothing.
\<close>

definition conn_execute_write :: "db \<Rightarrow> (tables \<Rightarrow> 'p \<Rightarrow> exn + tables) \<Rightarrow> 'p \<Rightarrow> exn option \<times> db" where
  "conn_execute_write d stmt p =
     (if has_schema d
      then (case stmt (working d) p of
              Inl e \<Rightarrow> (Some e, d)
            | Inr t \<Rightarrow> (None, d\<lparr>working := t\<rparr>))
      else (Some OperationalError, d))"

text \<open>The loop of \<open>DB.executemany\<close>: it stops at the first statement that raises.\<close>

fun execute_each :: "db \<Rightarrow> (tables \<Rightarrow> 'p \<Rightarrow> exn + tables) \<Rightarrow> 'p list \<Rightarrow> exn option \<times> db" where
  "execute_each d stmt [] = (None, d)"
| "execute_each d stmt (p # ps) =
     (case conn_execute_write d stmt p of
        (Some e, d') \<Rightarrow> (Some e, d')
      | (None, d') \<Rightarrow> execute_each d' stmt ps)"

text \<open>\<open>DB.executemany\<close>: every parameter tuple is executed, then the connection commits.\<close>

definition executemany :: "db \<Rightarrow> (tables \<Rightarrow> 'p \<Rightarrow> exn + tables) \<Rightarrow> 'p list \<Rightarrow> exn option \<times> db" where
  "executemany d stmt params_list =
     (case execute_each d stmt params_list of
        (Some e, d') \<Rightarrow> (Some e, d')
      | (None, d') \<Rightarrow> (None, commit d'))"

subsection \<open>The statements of the Writer\<close>

text \<open>
  \<open>INSERT ... ON CONFLICT(id) DO UPDATE SET ...\<close> on a table whose primary key is \<open>id\<close>:
  the row with the same key is overwritten where it stands, a row with a new key is added
  at the end.
\<close>

fun upsert :: "('r \<Rightarrow> string) \<Rightarrow> 'r list \<Rightarrow> 'r \<Rightarrow> 'r list" where
  "upsert key [] p = [p]"
| "upsert key (r # rs) p = (if key r = key p then p # rs else r # upsert key rs p)"

text \<open>An integer parameter must fit SQLite's 64-bit \<open>INTEGER\<close>.\<close>

definition fits_int64 :: "int \<Rightarrow> bool" where
  "fits_int64 n = (- (2 ^ 63) \<le> n \<and> n < 2 ^ 63)"

text \<open>The parameter tuples that the Writer builds, as the rows they are stored as:
  \<^verbatim>\<open>(f.id, f.name, f.file, f.signature)\<close> and
  \<^verbatim>\<open>(cs.id, cs.caller, cs.callee, cs.file, cs.line)\<close>.\<close>

definition function_params :: "Function \<Rightarrow> function_row" where
  "function_params f =
     \<lparr>fr_id = f_id f, fr_name = f_name f, fr_file = f_file f, fr_signature = f_signature f\<rparr>"

definition callsite_params :: "CallSite \<Rightarrow> callsite_row" where
  "callsite_params cs =
     \<lparr>cr_id = cs_id cs, cr_caller_function_id = cs_caller cs,
      cr_callee_function_id = cs_callee cs, cr_file = cs_file cs, cr_line = cs_line cs\<rparr>"

definition upsert_function_stmt :: "tables \<Rightarrow> Function \<Rightarrow> exn + tables" where
  "upsert_function_stmt t f =
     Inr (t\<lparr>t_functions := upsert fr_id (t_functions t) (function_params f)\<rparr>)"

text \<open>Binding \<open>cs.line\<close> raises when the integer does not fit.\<close>

definition upsert_callsite_stmt :: "tables \<Rightarrow> CallSite \<Rightarrow> exn + tables" where
  "upsert_callsite_stmt t cs =
     (if (case cs_line cs of None \<Rightarrow> True | Some n \<Rightarrow> fits_int64 n)
      then Inr (t\<lparr>t_callsites := upsert cr_id (t_callsites t) (callsite_params cs)\<rparr>)
      else Inl OverflowError)"

text \<open>
  The default of the column \<open>edges.depth\<close>: the DDL declares
  \<open>depth INTEGER NOT NULL\<close> and no \<open>DEFAULT\<close>, so a row inserted without a depth has none.
\<close>

definition edges_depth_default :: "int option" where
  "edges_depth_default = None"

text \<open>
  \<open>INSERT OR IGNORE INTO edges (caller_function_id, callee_function_id, callsite_id)\<close>.
  The statement gives no depth, so the row takes the default. \<open>OR IGNORE\<close> skips, without
  an error, a row that violates a \<open>NOT NULL\<close> or a uniqueness constraint. The table has no
  uniqueness constraint on the pair of caller and callee, so a row that has a depth is
  always added.
\<close>

definition insert_or_ignore_edge_stmt :: "tables \<Rightarrow> Edge \<Rightarrow> exn + tables" where
  "insert_or_ignore_edge_stmt t e =
     (case edges_depth_default of
        None \<Rightarrow> Inr t
      | Some dflt \<Rightarrow>
          Inr (t\<lparr>t_edges := t_edges t @
                 [\<lparr>er_caller_function_id = e_caller e, er_callee_function_id = e_callee e,
                   er_callsite_id = e_callsite_id e, er_depth = dflt\<rparr>]\<rparr>))"

text \<open>\<open>UPDATE edges SET depth = ? WHERE caller_function_id = ? AND callee_function_id = ?\<close>.
  A depth is at most the number of stored rows and fits 64 bits.\<close>

definition update_depth_stmt :: "tables \<Rightarrow> nat \<times> string \<times> string \<Rightarrow> exn + tables" where
  "update_depth_stmt t u =
     (case u of (dep, caller, callee) \<Rightarrow>
        Inr (t\<lparr>t_edges :=
               map (\<lambda>r. if er_caller_function_id r = caller \<and> er_callee_function_id r = callee
                         then r\<lparr>er_depth := int dep\<rparr> else r)
                   (t_edges t)\<rparr>))"

text \<open>\<open>SELECT id FROM functions WHERE id = ? OR name = ?\<close>, both parameters being the
  root argument: a scan of the table in row order.\<close>

definition select_root_ids :: "string \<Rightarrow> tables \<Rightarrow> string list" where
  "select_root_ids root t =
     map fr_id (filter (\<lambda>r. fr_id r = root \<or> fr_name r = root) (t_functions t))"

text \<open>\<open>SELECT caller_function_id, callee_function_id FROM edges\<close>.\<close>

definition select_edge_ends :: "tables \<Rightarrow> (string \<times> string) list" where
  "select_edge_ends t =
     map (\<lambda>r. (er_caller_function_id r, er_callee_function_id r)) (t_edges t)"

section \<open>Writer (\<open>callgraph/loader/writer.py\<close>)\<close>

definition insert_functions :: "db \<Rightarrow> Function list \<Rightarrow> exn option \<times> db" where
  "insert_functions d fs = executemany d upsert_function_stmt fs"

definition insert_callsites :: "db \<Rightarrow> CallSite list \<Rightarrow> exn option \<times> db" where
  "insert_callsites d css = (if css = [] then (None, d) else executemany d upsert_callsite_stmt css)"

definition insert_edges :: "db \<Rightarrow> Edge list \<Rightarrow> exn option \<times> db" where
  "insert_edges d es = (if es = [] then (None, d) else executemany d insert_or_ignore_edge_stmt es)"

subsection \<open>The traversal of \<open>_compute_depths\<close>\<close>

text \<open>
  The dictionary \<open>adjacency\<close>, in insertion order: a caller met for the first time gets a
  new entry at the end, and every callee is appended to the list of its caller.
\<close>

type_synonym adjacency = "(string \<times> string list) list"

fun adjacency_add :: "adjacency \<Rightarrow> string \<times> string \<Rightarrow> adjacency" where
  "adjacency_add [] (caller, callee) = [(caller, [callee])]"
| "adjacency_add ((c, ks) # rest) (caller, callee) =
     (if c = caller then (c, ks @ [callee]) # rest
      else (c, ks) # adjacency_add rest (caller, callee))"

definition build_adjacency :: "(string \<times> string) list \<Rightarrow> adjacency" where
  "build_adjacency rows = foldl adjacency_add [] rows"

text \<open>\<open>adjacency[current]\<close> under the guard \<open>if current in adjacency\<close>.\<close>

definition neighbors :: "adjacency \<Rightarrow> string \<Rightarrow> string list" where
  "neighbors adj current = (case map_of adj current of None \<Rightarrow> [] | Some ks \<Rightarrow> ks)"

text \<open>
  The inner loop \<open>for neighbor in adjacency[current]\<close>: a neighbour that has no depth yet
  gets \<open>current_depth + 1\<close> and is appended to the queue.
\<close>

fun visit ::
  "nat \<Rightarrow> (string \<rightharpoonup> nat) \<times> string list \<Rightarrow> string list \<Rightarrow> (string \<rightharpoonup> nat) \<times> string list" where
  "visit current_depth (depths, queue) [] = (depths, queue)"
| "visit current_depth (depths, queue) (neighbor # rest) =
     (if depths neighbor = None
      then visit current_depth (depths(neighbor \<mapsto> current_depth + 1), queue @ [neighbor]) rest
      else visit current_depth (depths, queue) rest)"

text \<open>The nodes that occur as a callee.\<close>

definition callee_nodes :: "adjacency \<Rightarrow> string set" where
  "callee_nodes adj = (\<Union>entry \<in> set adj. set (snd entry))"

text \<open>
  The loop \<open>while queue\<close>. \<open>depths[current]\<close> raises \<open>KeyError\<close> for a key that is not in
  the dictionary.
\<close>

function bfs :: "adjacency \<Rightarrow> (string \<rightharpoonup> nat) \<Rightarrow> string list \<Rightarrow> exn + (string \<rightharpoonup> nat)" where
  "bfs adj depths [] = Inr depths"
| "bfs adj depths (current # queue) =
     (case depths current of
        None \<Rightarrow> Inl KeyError
      | Some current_depth \<Rightarrow>
          bfs adj (fst (visit current_depth (depths, queue) (neighbors adj current)))
                  (snd (visit current_depth (depths, queue) (neighbors adj current))))"
  by pat_completeness auto

text \<open>The measure under which the loop terminates: twice the number of callees without a
  depth, plus the length of the queue.\<close>

definition bfs_measure :: "string set \<Rightarrow> (string \<rightharpoonup> nat) \<times> string list \<Rightarrow> nat" where
  "bfs_measure N st = 2 * card (N - dom (fst st)) + length (snd st)"

text \<open>
  The list \<open>updates\<close>: for every caller of \<open>adjacency\<close> that has a depth and every one of
  its callees that has a depth, the triple of the caller's depth, the caller and the callee.
\<close>

definition depth_updates :: "adjacency \<Rightarrow> (string \<rightharpoonup> nat) \<Rightarrow> (nat \<times> string \<times> string) list" where
  "depth_updates adj depths =
     concat (map (\<lambda>entry.
        case depths (fst entry) of
          None \<Rightarrow> []
        | Some caller_depth \<Rightarrow>
            map (\<lambda>callee. (caller_depth, fst entry, callee))
                (filter (\<lambda>callee. depths callee \<noteq> None) (snd entry))) adj)"

text \<open>
  \<open>_compute_depths\<close> from the line that reads the edges, \<open>root_id\<close> being resolved: the
  adjacency of all stored edges, the traversal from \<open>{root_id: 0}\<close> with the queue
  \<open>[root_id]\<close>, and the batch of updates, which is skipped when it is empty.
\<close>

definition assign_depths :: "db \<Rightarrow> string \<Rightarrow> exn option \<times> db" where
  "assign_depths d root_id =
     (let cursor = PyList (DB_execute d select_edge_ends);
          adj = build_adjacency (iter_rows cursor)
      in case bfs adj [root_id \<mapsto> 0] [root_id] of
           Inl e \<Rightarrow> (Some e, d)
         | Inr depths \<Rightarrow>
             (let updates = depth_updates adj depths
              in if updates = [] then (None, d) else executemany d update_depth_stmt updates))"

text \<open>
  \<open>_compute_depths\<close> from the line \<open>row = cursor.fetchone()\<close>, for the object bound to
  \<open>cursor\<close>: an exception of \<open>fetchone\<close> is not caught here, no row ends the computation
  with nothing done, and the first row gives \<open>root_id\<close>.
\<close>

definition compute_depths_from :: "string pyobj \<Rightarrow> db \<Rightarrow> exn option \<times> db" where
  "compute_depths_from cursor d =
     (case fetchone cursor of
        Inl e \<Rightarrow> (Some e, d)
      | Inr None \<Rightarrow> (None, d)
      | Inr (Some root_id) \<Rightarrow> assign_depths d root_id)"

text \<open>\<open>_compute_depths\<close>: \<open>cursor\<close> is what \<open>self.db.execute\<close> returns, a list.\<close>

definition compute_depths :: "db \<Rightarrow> string \<Rightarrow> exn option \<times> db" where
  "compute_depths d root_function =
     compute_depths_from (PyList (DB_execute d (select_root_ids root_function))) d"

text \<open>One step after another inside the \<open>try\<close> block: an exception skips the rest.\<close>

definition and_then :: "exn option \<times> db \<Rightarrow> (db \<Rightarrow> exn option \<times> db) \<Rightarrow> exn option \<times> db" where
  "and_then r step = (case r of (Some e, d) \<Rightarrow> (Some e, d) | (None, d) \<Rightarrow> step d)"

text \<open>
  \<open>Writer.load_callgraph\<close>: the four steps and the commit; on any exception the
  connection is rolled back and the exception is raised again. The result is the exception,
  if any, and the database afterwards.
\<close>

definition load_callgraph :: "db \<Rightarrow> CallGraph \<Rightarrow> string \<Rightarrow> exn option \<times> db" where
  "load_callgraph d graph root_function =
     (case and_then (and_then (and_then (insert_functions d (g_functions graph))
                                 (\<lambda>d. insert_callsites d (g_callsites graph)))
                       (\<lambda>d. insert_edges d (g_edges graph)))
             (\<lambda>d. compute_depths d root_function) of
        (None, d') \<Rightarrow> (None, commit d')
      | (Some e, d') \<Rightarrow> (Some e, rollback d'))"

section \<open>Query layer (\<open>callgraph/queries/api.py\<close>)\<close>

text \<open>\<open>SELECT id, name, file, signature FROM functions ORDER BY name\<close>. The order of
  text is the order of the code points.\<close>

definition list_functions :: "db \<Rightarrow> function_row list" where
  "list_functions d = DB_execute d (\<lambda>t. sort_key fr_name (t_functions t))"

text \<open>
  The query of \<open>get_callees\<close>: the edges joined with the callee's row and with the
  caller's row, the caller matching the argument by id or by name;
  \<open>SELECT DISTINCT\<close> of the callee's columns, \<open>ORDER BY\<close> the callee's name.
\<close>

definition select_callees :: "string \<Rightarrow> tables \<Rightarrow> function_row list" where
  "select_callees function t =
     sort_key fr_name (remdups
       (concat (map (\<lambda>e.
          concat (map (\<lambda>f.
            concat (map (\<lambda>caller.
              if er_callee_function_id e = fr_id f \<and> er_caller_function_id e = fr_id caller
                 \<and> (fr_id caller = function \<or> fr_name caller = function)
              then [f] else []) (t_functions t))) (t_functions t))) (t_edges t))))"

definition get_callees :: "db \<Rightarrow> string \<Rightarrow> function_row list" where
  "get_callees d function = DB_execute d (select_callees function)"

definition select_callers :: "string \<Rightarrow> tables \<Rightarrow> function_row list" where
  "select_callers function t =
     sort_key fr_name (remdups
       (concat (map (\<lambda>e.
          concat (map (\<lambda>f.
            concat (map (\<lambda>callee.
              if er_caller_function_id e = fr_id f \<and> er_callee_function_id e = fr_id callee
                 \<and> (fr_id callee = function \<or> fr_name callee = function)
              then [f] else []) (t_functions t))) (t_functions t))) (t_edges t))))"

definition get_callers :: "db \<Rightarrow> string \<Rightarrow> function_row list" where
  "get_callers d function = DB_execute d (select_callers function)"

text \<open>
  The query of \<open>depth_summary\<close>: \<open>GROUP BY depth ORDER BY depth\<close>, with the number of
  distinct callers and the number of rows of each group. \<open>WHERE depth IS NOT NULL\<close> keeps
  every row, the column being \<open>NOT NULL\<close>. A row of the result is the triple of
  \<open>depth\<close>, \<open>function_count\<close> and \<open>edge_count\<close>.
\<close>

definition select_depth_summary :: "tables \<Rightarrow> (int \<times> nat \<times> nat) list" where
  "select_depth_summary t =
     map (\<lambda>dep.
            (dep,
             length (remdups (map er_caller_function_id
                                  (filter (\<lambda>r. er_depth r = dep) (t_edges t)))),
             length (filter (\<lambda>r. er_depth r = dep) (t_edges t))))
         (sort (remdups (map er_depth (t_edges t))))"

definition depth_summary :: "db \<Rightarrow> (int \<times> nat \<times> nat) list" where
  "depth_summary d = DB_execute d select_depth_summary"

text \<open>The first query of \<open>function_detail\<close>, and its result when no row is found.\<close>

definition select_function :: "string \<Rightarrow> tables \<Rightarrow> function_row list" where
  "select_function function t =
     filter (\<lambda>r. fr_id r = function \<or> fr_name r = function) (t_functions t)"

text \<open>
  The last query of \<open>function_detail\<close>: the call sites joined with the caller's and the
  callee's row, the caller matching the argument; \<open>ORDER BY cs.file, cs.line\<close>, where
  \<open>NULL\<close> sorts first. A row is \<open>id\<close>, \<open>caller_name\<close>, \<open>callee_name\<close>, \<open>file\<close>, \<open>line\<close>.
\<close>

definition select_callsites_of ::
  "string \<Rightarrow> tables \<Rightarrow> (string \<times> string \<times> string \<times> string option \<times> int option) list" where
  "select_callsites_of function t =
     sort_key (\<lambda>row. (fst (snd (snd (snd row))), snd (snd (snd (snd row)))))
       (concat (map (\<lambda>cs.
          concat (map (\<lambda>caller.
            concat (map (\<lambda>callee.
              if cr_caller_function_id cs = fr_id caller \<and> cr_callee_function_id cs = fr_id callee
                 \<and> (fr_id caller = function \<or> fr_name caller = function)
              then [(cr_id cs, fr_name caller, fr_name callee, cr_file cs, cr_line cs)]
              else []) (t_functions t))) (t_functions t))) (t_callsites t)))"

text \<open>
  \<open>function_detail\<close>: \<open>None\<close> when the first query gives no row, and otherwise the first
  row with the callers, the callees and the call sites.
\<close>

definition function_detail ::
  "db \<Rightarrow> string \<Rightarrow>
   (function_row \<times> function_row list \<times> function_row list
    \<times> (string \<times> string \<times> string \<times> string option \<times> int option) list) option" where
  "function_detail d function =
     (case DB_execute d (select_function function) of
        [] \<Rightarrow> None
      | func_info # _ \<Rightarrow>
          Some (func_info, get_callers d function, get_callees d function,
                DB_execute d (select_callsites_of function)))"

section \<open>Notions used in the statements\<close>

text \<open>A string that is not empty and has no whitespace at either end.\<close>

definition stripped :: "string \<Rightarrow> bool" where
  "stripped s = (s \<noteq> [] \<and> \<not> isspace (hd s) \<and> \<not> isspace (last s))"

text \<open>The stored value \<open>x\<close> of a required string field is the stripped text of the
  string that was given for it.\<close>

definition trimmed_from :: "json option \<Rightarrow> string \<Rightarrow> bool" where
  "trimmed_from v x = (case v of Some (JStr s) \<Rightarrow> x = strip s \<and> stripped x | _ \<Rightarrow> False)"

text \<open>The edge that \<open>from_dict\<close> derives from a call site.\<close>

definition edge_of_callsite :: "CallSite \<Rightarrow> Edge" where
  "edge_of_callsite cs =
     \<lparr>e_caller = cs_caller cs, e_callee = cs_callee cs, e_callsite_id = Some (cs_id cs)\<rparr>"

text \<open>The first row of a result, if there is one.\<close>

definition first_row :: "'r list \<Rightarrow> 'r option" where
  "first_row rows = (case rows of [] \<Rightarrow> None | r # _ \<Rightarrow> Some r)"

text \<open>The tables after every function, or every call site, of a batch has been upserted.\<close>

definition store_functions :: "tables \<Rightarrow> Function list \<Rightarrow> tables" where
  "store_functions t fs =
     t\<lparr>t_functions := foldl (upsert fr_id) (t_functions t) (map function_params fs)\<rparr>"

definition store_callsites :: "tables \<Rightarrow> CallSite list \<Rightarrow> tables" where
  "store_callsites t css =
     t\<lparr>t_callsites := foldl (upsert cr_id) (t_callsites t) (map callsite_params css)\<rparr>"

text \<open>The line number of a call site can be bound to a statement.\<close>

definition line_fits :: "CallSite \<Rightarrow> bool" where
  "line_fits cs = (case cs_line cs of None \<Rightarrow> True | Some n \<Rightarrow> fits_int64 n)"

text \<open>A database with tables and no open transaction.\<close>

definition settled :: "tables \<Rightarrow> db" where
  "settled t = \<lparr>has_schema = True, committed = t, working = t\<rparr>"

text \<open>The pairs of caller and callee of the stored edges, and the rows of the edges that a
  function emits.\<close>

definition stored_calls :: "tables \<Rightarrow> (string \<times> string) set" where
  "stored_calls t = set (select_edge_ends t)"

definition edges_from :: "string \<Rightarrow> tables \<Rightarrow> edge_row list" where
  "edges_from x t = filter (\<lambda>r. er_caller_function_id r = x) (t_edges t)"

text \<open>The dictionary \<open>depths\<close> that the traversal of \<open>_compute_depths\<close> builds on a
  database for a resolved root.\<close>

definition traversal_depths :: "db \<Rightarrow> string \<Rightarrow> exn + (string \<rightharpoonup> nat)" where
  "traversal_depths d root_id =
     bfs (build_adjacency (iter_rows (PyList (DB_execute d select_edge_ends))))
         [root_id \<mapsto> 0] [root_id]"

subsection \<open>Example inputs\<close>

text \<open>A graph with one function and two call sites that share the id \<open>c1\<close>; the second
  calls \<open>zz\<close>, which is not a function of the graph.\<close>

definition graph_dup_dangling :: CallGraph where
  "graph_dup_dangling =
     \<lparr>g_functions = [\<lparr>f_id = ''f1'', f_name = ''main'', f_file = None, f_signature = None\<rparr>],
      g_callsites =
        [\<lparr>cs_id = ''c1'', cs_caller = ''f1'', cs_callee = ''f1'', cs_file = None, cs_line = None\<rparr>,
         \<lparr>cs_id = ''c1'', cs_caller = ''f1'', cs_callee = ''zz'', cs_file = None, cs_line = None\<rparr>],
      g_edges = []\<rparr>"

text \<open>The document of the scenario: three functions, and three calls under the key
  \<open>calls\<close>, none of which has an id.\<close>

definition scenario_document :: "(string \<times> json) list" where
  "scenario_document =
     [(''functions'',
       JArr [JObj [(''id'', JStr ''f1''), (''name'', JStr ''main'')],
             JObj [(''id'', JStr ''f2''), (''name'', JStr ''a'')],
             JObj [(''id'', JStr ''f3''), (''name'', JStr ''b'')]]),
      (''calls'',
       JArr [JObj [(''caller'', JStr ''f1''), (''callee'', JStr ''f2'')],
             JObj [(''caller'', JStr ''f2''), (''callee'', JStr ''f3'')],
             JObj [(''caller'', JStr ''f1''), (''callee'', JStr ''f3'')]])]"

text \<open>A document with its call sites under \<open>callSites\<close>, written with the aliases.\<close>

definition alias_document :: "(string \<times> json) list" where
  "alias_document =
     [(''functions'',
       JArr [JObj [(''id'', JStr ''f1''), (''name'', JStr ''main'')],
             JObj [(''id'', JStr ''f2''), (''name'', JStr ''a'')]]),
      (''callSites'',
       JArr [JObj [(''id'', JStr ''c1''), (''caller_id'', JStr ''f1''),
                   (''callee_id'', JStr ''f2'')]])]"

text \<open>The graph of the scenario, \<open>main \<rightarrow> a\<close>, \<open>a \<rightarrow> b\<close>, \<open>main \<rightarrow> b\<close>, with a call site for
  each call and the edges derived from the call sites.\<close>

definition scenario_graph :: CallGraph where
  "scenario_graph =
     \<lparr>g_functions =
        [\<lparr>f_id = ''f1'', f_name = ''main'', f_file = None, f_signature = None\<rparr>,
         \<lparr>f_id = ''f2'', f_name = ''a'', f_file = None, f_signature = None\<rparr>,
         \<lparr>f_id = ''f3'', f_name = ''b'', f_file = None, f_signature = None\<rparr>],
      g_callsites =
        [\<lparr>cs_id = ''c1'', cs_caller = ''f1'', cs_callee = ''f2'', cs_file = None, cs_line = None\<rparr>,
         \<lparr>cs_id = ''c2'', cs_caller = ''f2'', cs_callee = ''f3'', cs_file = None, cs_line = None\<rparr>,
         \<lparr>cs_id = ''c3'', cs_caller = ''f1'', cs_callee = ''f3'', cs_file = None, cs_line = None\<rparr>],
      g_edges =
        [\<lparr>e_caller = ''f1'', e_callee = ''f2'', e_callsite_id = Some ''c1''\<rparr>,
         \<lparr>e_caller = ''f2'', e_callee = ''f3'', e_callsite_id = Some ''c2''\<rparr>,
         \<lparr>e_caller = ''f1'', e_callee = ''f3'', e_callsite_id = Some ''c3''\<rparr>]\<rparr>"

text \<open>The tables after the functions and call sites of the scenario have been stored.\<close>

definition scenario_tables :: tables where
  "scenario_tables =
     \<lparr>t_functions = map function_params (g_functions scenario_graph),
      t_callsites = map callsite_params (g_callsites scenario_graph),
      t_edges = []\<rparr>"

text \<open>A new database file after \<open>init_schema\<close>: the tables exist and are empty.\<close>

definition fresh_db :: db where
  "fresh_db = init_schema new_db"

text \<open>A database that holds the functions of the scenario and its three edges, each stored
  with the depth 9.\<close>

definition scenario_edges_db :: db where
  "scenario_edges_db =
     (let t = \<lparr>t_functions = map function_params (g_functions scenario_graph),
               t_callsites = [],
               t_edges =
                 [\<lparr>er_caller_function_id = ''f1'', er_callee_function_id = ''f2'',
                   er_callsite_id = None, er_depth = 9\<rparr>,
                  \<lparr>er_caller_function_id = ''f2'', er_callee_function_id = ''f3'',
                   er_callsite_id = None, er_depth = 9\<rparr>,
                  \<lparr>er_caller_function_id = ''f1'', er_callee_function_id = ''f3'',
                   er_callsite_id = None, er_depth = 9\<rparr>]\<rparr>
      in \<lparr>has_schema = True, committed = t, working = t\<rparr>)"

text \<open>A valid graph whose second call site has a line number that does not fit 64 bits.\<close>

definition overflow_graph :: CallGraph where
  "overflow_graph =
     \<lparr>g_functions =
        [\<lparr>f_id = ''f1'', f_name = ''main'', f_file = None, f_signature = None\<rparr>,
         \<lparr>f_id = ''f2'', f_name = ''a'', f_file = None, f_signature = None\<rparr>],
      g_callsites =
        [\<lparr>cs_id = ''c1'', cs_caller = ''f1'', cs_callee = ''f2'', cs_file = None,
          cs_line = Some 1\<rparr>,
         \<lparr>cs_id = ''c2'', cs_caller = ''f1'', cs_callee = ''f2'', cs_file = None,
          cs_line = Some (2 ^ 63)\<rparr>],
      g_edges = []\<rparr>"

text \<open>A valid graph in which \<open>f1\<close> is the id of the second function and the name of the
  first.\<close>

definition ambiguous_graph :: CallGraph where
  "ambiguous_graph =
     \<lparr>g_functions =
        [\<lparr>f_id = ''f2'', f_name = ''f1'', f_file = None, f_signature = None\<rparr>,
         \<lparr>f_id = ''f1'', f_name = ''main'', f_file = None, f_signature = None\<rparr>],
      g_callsites = [], g_edges = []\<rparr>"

text \<open>A database that holds the functions of the scenario and two edges: \<open>f1 \<rightarrow> f2\<close> at
  depth 0, and \<open>x \<rightarrow> y\<close> at depth 3, left by an earlier state of the store.\<close>

definition stale_db :: db where
  "stale_db =
     settled
       \<lparr>t_functions = map function_params (g_functions scenario_graph),
        t_callsites = map callsite_params (g_callsites scenario_graph),
        t_edges =
          [\<lparr>er_caller_function_id = ''f1'', er_callee_function_id = ''f2'',
            er_callsite_id = None, er_depth = 0\<rparr>,
           \<lparr>er_caller_function_id = ''x'', er_callee_function_id = ''y'',
            er_callsite_id = None, er_depth = 3\<rparr>]\<rparr>"

section \<open>Termination of the traversal\<close>

lemma visit_measure:
  "set nbs \<subseteq> N \<Longrightarrow> finite N \<Longrightarrow>
   bfs_measure N (visit cd (depths, queue) nbs) \<le> bfs_measure N (depths, queue)"
proof (induction nbs arbitrary: depths queue)
  case Nil
  then show ?case by simp
next
  case (Cons nb nbs)
  show ?case
  proof (cases "depths nb = None")
    case True
    have nbN: "nb \<in> N - dom depths" using Cons.prems True by (auto simp: dom_def)
    have eq: "N - dom (depths(nb \<mapsto> cd + 1)) = (N - dom depths) - {nb}" by auto
    have fin: "finite (N - dom depths)" using Cons.prems by simp
    have c: "card (N - dom (depths(nb \<mapsto> cd + 1))) = card (N - dom depths) - 1"
      unfolding eq using nbN fin by simp
    have pos: "card (N - dom depths) > 0" using nbN fin by (auto simp: card_gt_0_iff)
    have step: "bfs_measure N (depths(nb \<mapsto> cd + 1), queue @ [nb]) \<le> bfs_measure N (depths, queue)"
      unfolding bfs_measure_def fst_conv snd_conv c using pos by simp
    have "bfs_measure N (visit cd (depths(nb \<mapsto> cd + 1), queue @ [nb]) nbs)
          \<le> bfs_measure N (depths(nb \<mapsto> cd + 1), queue @ [nb])"
      using Cons.prems by (intro Cons.IH) auto
    moreover have "visit cd (depths, queue) (nb # nbs)
                   = visit cd (depths(nb \<mapsto> cd + 1), queue @ [nb]) nbs"
      using True by simp
    ultimately show ?thesis using step by (simp only:)
  next
    case False
    have "visit cd (depths, queue) (nb # nbs) = visit cd (depths, queue) nbs"
      using False by auto
    moreover have "bfs_measure N (visit cd (depths, queue) nbs) \<le> bfs_measure N (depths, queue)"
      using Cons.prems by (intro Cons.IH) auto
    ultimately show ?thesis by (simp only:)
  qed
qed

lemma neighbors_subset: "set (neighbors adj c) \<subseteq> callee_nodes adj"
proof
  fix k assume k: "k \<in> set (neighbors adj c)"
  then obtain ks where ks: "map_of adj c = Some ks" "k \<in> set ks"
    by (cases "map_of adj c") (auto simp: neighbors_def)
  from ks(1) have "(c, ks) \<in> set adj" by (rule map_of_SomeD)
  with ks(2) show "k \<in> callee_nodes adj" by (force simp: callee_nodes_def)
qed

termination bfs
proof (relation "measure (\<lambda>(adj, depths, queue). bfs_measure (callee_nodes adj) (depths, queue))")
  show "wf (measure (\<lambda>(adj, depths, queue). bfs_measure (callee_nodes adj) (depths, queue)))"
    by simp
next
  fix adj :: adjacency and depths :: "string \<rightharpoonup> nat" and current queue cd
  assume "depths current = Some cd"
  have fin: "finite (callee_nodes adj)" by (simp add: callee_nodes_def)
  have "bfs_measure (callee_nodes adj) (visit cd (depths, queue) (neighbors adj current))
        \<le> bfs_measure (callee_nodes adj) (depths, queue)"
    by (rule visit_measure[OF neighbors_subset fin])
  moreover have "bfs_measure (callee_nodes adj) (depths, queue)
                 < bfs_measure (callee_nodes adj) (depths, current # queue)"
    by (simp add: bfs_measure_def)
  ultimately show "((adj, fst (visit cd (depths, queue) (neighbors adj current)),
          snd (visit cd (depths, queue) (neighbors adj current))),
         (adj, depths, current # queue))
        \<in> measure (\<lambda>(adj, depths, queue). bfs_measure (callee_nodes adj) (depths, queue))"
    by simp
qed

declare bfs.simps [simp del]

section \<open>Properties of the document model\<close>

subsection \<open>Stripping\<close>

lemma dropWhile_all: "(\<forall>c\<in>set a. P c) \<Longrightarrow> dropWhile P (a @ s) = dropWhile P s"
  by (induction a) auto

lemma lstrip_pad: "\<forall>c\<in>set a. isspace c \<Longrightarrow> lstrip (a @ s) = lstrip s"
  by (simp add: lstrip_def dropWhile_all)

lemma rstrip_pad: "\<forall>c\<in>set b. isspace c \<Longrightarrow> rstrip (s @ b) = rstrip s"
  by (simp add: rstrip_def dropWhile_all)

lemma lstrip_hd: "lstrip s \<noteq> [] \<Longrightarrow> \<not> isspace (hd (lstrip s))"
  unfolding lstrip_def by (simp add: hd_dropWhile)

lemma rstrip_last: "rstrip s \<noteq> [] \<Longrightarrow> \<not> isspace (last (rstrip s))"
  unfolding rstrip_def by (simp add: last_rev hd_dropWhile)

lemma rstrip_hd: "rstrip s \<noteq> [] \<Longrightarrow> hd (rstrip s) = hd s"
proof (induction s rule: rev_induct)
  case Nil then show ?case by (simp add: rstrip_def)
next
  case (snoc x xs)
  show ?case
  proof (cases "isspace x")
    case True
    then have "rstrip (xs @ [x]) = rstrip xs" by (simp add: rstrip_def)
    with snoc show ?thesis by (cases xs) (auto simp: rstrip_def)
  next
    case False
    then have "rstrip (xs @ [x]) = xs @ [x]" by (simp add: rstrip_def)
    then show ?thesis by simp
  qed
qed

lemma lstrip_id: "s \<noteq> [] \<Longrightarrow> \<not> isspace (hd s) \<Longrightarrow> lstrip s = s"
  by (cases s) (auto simp: lstrip_def)

lemma rstrip_id: "s \<noteq> [] \<Longrightarrow> \<not> isspace (last s) \<Longrightarrow> rstrip s = s"
  by (induction s rule: rev_induct) (auto simp: rstrip_def)

lemma strip_stripped: "strip s \<noteq> [] \<Longrightarrow> stripped (strip s)"
proof -
  assume ne: "strip s \<noteq> []"
  then have r: "rstrip (lstrip s) \<noteq> []" by (simp add: strip_def)
  then have l: "lstrip s \<noteq> []" by (auto simp: rstrip_def)
  have "\<not> isspace (last (strip s))" using rstrip_last[OF r] by (simp add: strip_def)
  moreover have "hd (strip s) = hd (lstrip s)" using rstrip_hd[OF r] by (simp add: strip_def)
  moreover have "\<not> isspace (hd (lstrip s))" by (rule lstrip_hd[OF l])
  ultimately show ?thesis using ne by (simp add: stripped_def)
qed

lemma strip_id: "stripped s \<Longrightarrow> strip s = s"
  by (simp add: stripped_def strip_def lstrip_id rstrip_id)

lemma strip_idem: "strip (strip s) = strip s"
proof (cases "strip s = []")
  case True
  have "strip [] = []" by (simp add: strip_def lstrip_def rstrip_def)
  with True show ?thesis by simp
next
  case False
  then show ?thesis by (intro strip_id strip_stripped)
qed

lemma strip_all_space: "\<forall>c\<in>set s. isspace c \<Longrightarrow> strip s = []"
proof -
  assume "\<forall>c\<in>set s. isspace c"
  then have "lstrip s = []" by (simp add: lstrip_def)
  then show ?thesis by (simp add: strip_def rstrip_def)
qed

lemma strip_pad:
  assumes a: "\<forall>c\<in>set a. isspace c" and b: "\<forall>c\<in>set b. isspace c"
  shows "strip (a @ s @ b) = strip s"
proof -
  have 1: "lstrip (a @ s @ b) = lstrip (s @ b)" using a by (rule lstrip_pad)
  show ?thesis
  proof (cases "\<forall>c\<in>set s. isspace c")
    case True
    then have "\<forall>c\<in>set (s @ b). isspace c" using b by auto
    then have "strip (s @ b) = []" by (rule strip_all_space)
    moreover have "strip s = []" using True by (rule strip_all_space)
    ultimately show ?thesis using 1 by (simp add: strip_def)
  next
    case False
    then obtain x where "x \<in> set s" "\<not> isspace x" by auto
    then have "lstrip (s @ b) = lstrip s @ b"
      unfolding lstrip_def by (rule dropWhile_append1)
    then show ?thesis using 1 rstrip_pad[OF b] by (simp add: strip_def)
  qed
qed

lemma not_empty_Inr: "not_empty v = Inr x \<Longrightarrow> x = strip v \<and> stripped x"
  by (auto simp: not_empty_def strip_stripped split: if_splits)

lemma not_empty_space: "\<forall>c\<in>set s. isspace c \<Longrightarrow> not_empty s = Inl PydanticError"
  by (simp add: not_empty_def strip_all_space)

lemma not_empty_pad:
  "\<forall>c\<in>set a. isspace c \<Longrightarrow> \<forall>c\<in>set b. isspace c \<Longrightarrow> not_empty (a @ s @ b) = not_empty s"
proof -
  assume a: "\<forall>c\<in>set a. isspace c" and b: "\<forall>c\<in>set b. isspace c"
  have p: "strip (a @ s @ b) = strip s" using a b by (rule strip_pad)
  have e: "strip [] = []" by (simp add: strip_all_space)
  show ?thesis
  proof (cases "s = []")
    case True
    then show ?thesis using p e by (simp add: not_empty_def)
  next
    case False
    then show ?thesis using p by (simp add: not_empty_def)
  qed
qed

lemma required_str_Inr: "required_str v = Inr x \<Longrightarrow> trimmed_from v x"
  by (auto simp: required_str_def trimmed_from_def dest: not_empty_Inr split: option.splits json.splits)

lemma Function_init_Inr:
  "Function_init kw = Inr f \<Longrightarrow>
   trimmed_from (map_of kw ''id'') (f_id f) \<and> trimmed_from (map_of kw ''name'') (f_name f)"
  unfolding Function_init_def
  by (auto split: sum.splits dest: required_str_Inr)

lemma CallSite_init_Inr:
  "CallSite_init lax kw = Inr cs \<Longrightarrow>
   trimmed_from (map_of kw ''id'') (cs_id cs) \<and> trimmed_from (map_of kw ''caller'') (cs_caller cs)
   \<and> trimmed_from (map_of kw ''callee'') (cs_callee cs)"
  unfolding CallSite_init_def
  by (auto split: sum.splits dest: required_str_Inr)

lemma Edge_init_Inr:
  "Edge_init kw = Inr e \<Longrightarrow>
   trimmed_from (map_of kw ''caller'') (e_caller e) \<and> trimmed_from (map_of kw ''callee'') (e_callee e)"
  unfolding Edge_init_def
  by (auto split: sum.splits dest: required_str_Inr)

text \<open>
  Claim C10. A \<open>Function\<close>, \<open>CallSite\<close> or \<open>Edge\<close> that is constructed stores, in each of
  \<open>id\<close>, \<open>name\<close>, \<open>caller\<close>, \<open>callee\<close>, the given string with the whitespace at both ends
  removed, and the stored string is not empty and has no whitespace at either end. A
  string of whitespace only is rejected. Two strings that differ only in whitespace around
  them are stored as the same string, or are both rejected.
\<close>

theorem stored_fields_are_stripped:
  "(Function_init kw = Inr f \<longrightarrow>
      trimmed_from (map_of kw ''id'') (f_id f) \<and> trimmed_from (map_of kw ''name'') (f_name f))
   \<and> (CallSite_init lax kw = Inr cs \<longrightarrow>
      trimmed_from (map_of kw ''id'') (cs_id cs)
      \<and> trimmed_from (map_of kw ''caller'') (cs_caller cs)
      \<and> trimmed_from (map_of kw ''callee'') (cs_callee cs))
   \<and> (Edge_init kw = Inr e \<longrightarrow>
      trimmed_from (map_of kw ''caller'') (e_caller e)
      \<and> trimmed_from (map_of kw ''callee'') (e_callee e))
   \<and> ((\<forall>c\<in>set s. isspace c) \<longrightarrow> required_str (Some (JStr s)) = Inl PydanticError)
   \<and> ((\<forall>c\<in>set a. isspace c) \<and> (\<forall>c\<in>set b. isspace c) \<longrightarrow>
      required_str (Some (JStr (a @ t @ b))) = required_str (Some (JStr t)))"
proof -
  have 1: "(\<forall>c\<in>set s. isspace c) \<longrightarrow> required_str (Some (JStr s)) = Inl PydanticError"
    by (simp add: required_str_def not_empty_space)
  have 2: "(\<forall>c\<in>set a. isspace c) \<and> (\<forall>c\<in>set b. isspace c) \<longrightarrow>
      required_str (Some (JStr (a @ t @ b))) = required_str (Some (JStr t))"
    by (simp add: required_str_def not_empty_pad)
  show ?thesis
    using 1 2 Function_init_Inr[of kw f] CallSite_init_Inr[of lax kw cs] Edge_init_Inr[of kw e]
    by blast
qed

theorem stored_fields_are_stripped_witness:
  "Function_init [(''id'', JStr '' f1 ''), (''name'', JStr ''main'')]
     = Inr \<lparr>f_id = ''f1'', f_name = ''main'', f_file = None, f_signature = None\<rparr>
   \<and> trimmed_from (Some (JStr '' f1 '')) ''f1''
   \<and> CallSite_init (\<lambda>x. None)
        [(''id'', JStr ''c1 ''), (''caller'', JStr '' f1''), (''callee'', JStr ''f2'')]
     = Inr \<lparr>cs_id = ''c1'', cs_caller = ''f1'', cs_callee = ''f2'', cs_file = None,
            cs_line = None\<rparr>
   \<and> Edge_init [(''caller'', JStr '' f1 ''), (''callee'', JStr ''f2'')]
     = Inr \<lparr>e_caller = ''f1'', e_callee = ''f2'', e_callsite_id = None\<rparr>
   \<and> required_str (Some (JStr ''  '')) = Inl PydanticError
   \<and> required_str (Some (JStr ('' '' @ ''f1'' @ '' ''))) = required_str (Some (JStr ''f1''))"
  using stored_fields_are_stripped
          [of "[(''id'', JStr '' f1 ''), (''name'', JStr ''main'')]"
              "\<lparr>f_id = ''f1'', f_name = ''main'', f_file = None, f_signature = None\<rparr>"
              "\<lambda>x. None"
              "\<lparr>cs_id = ''c1'', cs_caller = ''f1'', cs_callee = ''f2'', cs_file = None,
                cs_line = None\<rparr>"
              "\<lparr>e_caller = ''f1'', e_callee = ''f2'', e_callsite_id = None\<rparr>"
              "''  ''" "'' ''" "'' ''" "''f1''"]
  by (simp add: Function_init_def CallSite_init_def Edge_init_def required_str_def
        optional_str_def optional_line_def not_empty_def strip_def lstrip_def rstrip_def
        isspace_def trimmed_from_def stripped_def)

section \<open>Properties of the validator\<close>

lemma scan_ids_fst: "fst (scan_ids seen dups xs) = seen \<union> set xs"
  by (induction xs arbitrary: seen dups) auto

lemma scan_ids_snd_append: "snd (scan_ids seen dups xs) = dups @ snd (scan_ids seen [] xs)"
proof (induction xs arbitrary: seen dups)
  case Nil
  then show ?case by simp
next
  case (Cons x xs)
  show ?case
    using Cons.IH[of "insert x seen" "dups @ [x]"] Cons.IH[of "insert x seen" "[x]"]
          Cons.IH[of "insert x seen" dups]
    by simp
qed

lemma count_list_pos: "0 < count_list xs x \<longleftrightarrow> x \<in> set xs"
  using count_list_0_iff[of xs x] by auto

lemma distinct_count_list: "distinct xs \<longleftrightarrow> (\<forall>x. \<not> 1 < count_list xs x)"
proof (induction xs)
  case Nil
  then show ?case by simp
next
  case (Cons y ys)
  show ?case
  proof (cases "y \<in> set ys")
    case True
    then have "0 < count_list ys y" by (simp add: count_list_pos)
    then have "1 < count_list (y # ys) y" by simp
    with True show ?thesis by auto
  next
    case False
    then have z: "count_list ys y = 0" by simp
    have "\<And>x. 1 < count_list (y # ys) x \<longleftrightarrow> 1 < count_list ys x"
      using z by (case_tac "y = x") auto
    then have "(\<forall>x. \<not> 1 < count_list (y # ys) x) \<longleftrightarrow> (\<forall>x. \<not> 1 < count_list ys x)"
      by simp
    with False Cons.IH show ?thesis by simp
  qed
qed

lemma scan_ids_member:
  "x \<in> set (snd (scan_ids seen [] xs)) \<longleftrightarrow> (x \<in> seen \<and> x \<in> set xs) \<or> 1 < count_list xs x"
proof (induction xs arbitrary: seen)
  case Nil
  then show ?case by simp
next
  case (Cons y ys)
  have s: "snd (scan_ids seen [] (y # ys))
           = (if y \<in> seen then [y] else []) @ snd (scan_ids (insert y seen) [] ys)"
    using scan_ids_snd_append[of "insert y seen" "[y]" ys] by simp
  show ?case unfolding s using Cons.IH[of "insert y seen"]
    by (auto simp: count_list_pos)
qed

lemma scan_ids_empty: "snd (scan_ids {} [] xs) = [] \<longleftrightarrow> distinct xs"
proof -
  have "snd (scan_ids {} [] xs) = [] \<longleftrightarrow> (\<forall>x. x \<notin> set (snd (scan_ids {} [] xs)))"
    by (cases "snd (scan_ids {} [] xs)") auto
  also have "\<dots> \<longleftrightarrow> (\<forall>x. \<not> 1 < count_list xs x)" by (simp add: scan_ids_member)
  also have "\<dots> \<longleftrightarrow> distinct xs"
    by (simp add: distinct_count_list)
  finally show ?thesis .
qed

lemma scan_callsites_eq:
  "scan_callsites F (ids, dups, refs) css =
     (fst (scan_ids ids dups (map cs_id css)), snd (scan_ids ids dups (map cs_id css)),
      refs @ concat (map (callsite_refs F) css))"
  by (induction css arbitrary: ids dups refs) auto

lemma validate_callgraph_unfold:
  assumes "g_functions g \<noteq> []" and "distinct (map f_id (g_functions g))"
  shows "validate_callgraph g =
     (let F = set (map f_id (g_functions g));
          dups = snd (scan_ids {} [] (map cs_id (g_callsites g)));
          refs = concat (map (callsite_refs F) (g_callsites g))
      in if dups \<noteq> [] then Inl (DuplicateCallsites dups)
         else if refs \<noteq> [] then Inl (InvalidCallsiteRefs refs)
         else let erefs = scan_edges F (set (map cs_id (g_callsites g))) 0 [] (g_edges g)
              in if erefs \<noteq> [] then Inl (InvalidEdgeRefs erefs) else Inr ())"
proof -
  have d: "snd (scan_ids {} [] (map f_id (g_functions g))) = []"
    using assms(2) by (simp add: scan_ids_empty)
  have f: "fst (scan_ids {} [] (map f_id (g_functions g))) = set (map f_id (g_functions g))"
    by (simp add: scan_ids_fst)
  have fc: "fst (scan_ids {} [] (map cs_id (g_callsites g))) = set (map cs_id (g_callsites g))"
    by (simp add: scan_ids_fst)
  show ?thesis
    unfolding validate_callgraph_def Let_def
    using assms(1) d f fc
    by (simp add: case_prod_beta scan_callsites_eq del: set_map)
qed

text \<open>
  Claim C6, as amended. For a graph with at least one function and no duplicate function
  id: when two call sites share an id, \<open>validate_callgraph\<close> fails with the error of the
  duplicate call-site ids, which names every id that occurs more than once and carries no
  invalid reference; when no call-site id is repeated and a call site refers to a missing
  function, it fails with the error that lists every invalid reference of the call sites.
\<close>

theorem validate_callgraph_callsite_errors:
  assumes "g_functions g \<noteq> []" and "distinct (map f_id (g_functions g))"
  shows "(\<not> distinct (map cs_id (g_callsites g)) \<longrightarrow>
            validate_callgraph g
              = Inl (DuplicateCallsites (snd (scan_ids {} [] (map cs_id (g_callsites g)))))
            \<and> (\<forall>x. x \<in> set (snd (scan_ids {} [] (map cs_id (g_callsites g))))
                     \<longleftrightarrow> 1 < count_list (map cs_id (g_callsites g)) x))
       \<and> (distinct (map cs_id (g_callsites g))
            \<and> concat (map (callsite_refs (set (map f_id (g_functions g)))) (g_callsites g)) \<noteq> []
          \<longrightarrow> validate_callgraph g
              = Inl (InvalidCallsiteRefs
                       (concat (map (callsite_refs (set (map f_id (g_functions g))))
                                    (g_callsites g)))))"
  using scan_ids_empty[of "map cs_id (g_callsites g)"]
  by (simp add: validate_callgraph_unfold[OF assms] Let_def scan_ids_member del: set_map)

theorem validate_callgraph_callsite_errors_witness:
  "g_functions graph_dup_dangling \<noteq> []
   \<and> distinct (map f_id (g_functions graph_dup_dangling))
   \<and> \<not> distinct (map cs_id (g_callsites graph_dup_dangling))
   \<and> validate_callgraph graph_dup_dangling
       = Inl (DuplicateCallsites (snd (scan_ids {} [] (map cs_id (g_callsites graph_dup_dangling)))))"
proof -
  have 1: "g_functions graph_dup_dangling \<noteq> []" by (simp add: graph_dup_dangling_def)
  have 2: "distinct (map f_id (g_functions graph_dup_dangling))"
    by (simp add: graph_dup_dangling_def)
  have 3: "\<not> distinct (map cs_id (g_callsites graph_dup_dangling))"
    by (simp add: graph_dup_dangling_def)
  show ?thesis using 1 2 3 validate_callgraph_callsite_errors[OF 1 2] by blast
qed

text \<open>
  The claim as stated fails on a graph that has a duplicate call-site id and an invalid
  reference: the error is the one of the duplicate ids, and its message does not mention
  the invalid reference that the loop has recorded.
\<close>

theorem validate_callgraph_reports_one_category:
  "validate_callgraph graph_dup_dangling = Inl (DuplicateCallsites [''c1''])
   \<and> error_message (DuplicateCallsites [''c1'']) = ''Duplicate callsite IDs found: c1''
   \<and> concat (map (callsite_refs {''f1''}) (g_callsites graph_dup_dangling))
       = [''Callsite c1: callee '' @ [CHR 0x27] @ ''zz'' @ [CHR 0x27] @ '' not found'']"
  by (simp add: validate_callgraph_def graph_dup_dangling_def callsite_refs_def error_message_def)

section \<open>Properties of \<open>from_dict\<close>\<close>

lemma map_exn_Inr_all:
  "map_exn f xs = Inr ys \<Longrightarrow> \<forall>y\<in>set ys. \<exists>x\<in>set xs. f x = Inr y"
proof (induction xs arbitrary: ys)
  case Nil
  then show ?case by simp
next
  case (Cons x xs)
  then show ?case by (auto split: sum.splits)
qed

lemma map_exn_total:
  "\<forall>x\<in>set xs. f x = Inr (g x) \<Longrightarrow> map_exn f xs = Inr (map g xs)"
  by (induction xs) auto

lemma not_empty_stripped: "stripped s \<Longrightarrow> not_empty s = Inr s"
  by (auto simp: not_empty_def strip_id stripped_def)

lemma trimmed_from_stripped: "trimmed_from v x \<Longrightarrow> stripped x"
  by (auto simp: trimmed_from_def split: option.splits json.splits)

lemma callsite_of_stripped:
  assumes "callsite_of lax j = Inr cs"
  shows "stripped (cs_id cs) \<and> stripped (cs_caller cs) \<and> stripped (cs_callee cs)"
proof -
  from assms obtain kw where "CallSite_init lax kw = Inr cs"
    by (auto simp: callsite_of_def split: json.splits)
  then show ?thesis using CallSite_init_Inr[of lax kw cs] by (blast dest: trimmed_from_stripped)
qed

lemma derived_edge_stripped:
  "stripped (cs_id cs) \<and> stripped (cs_caller cs) \<and> stripped (cs_callee cs) \<Longrightarrow>
   derived_edge cs = Inr (edge_of_callsite cs)"
  by (simp add: derived_edge_def Edge_init_def required_str_def optional_str_def
        not_empty_stripped edge_of_callsite_def)

lemma from_dict_derived:
  assumes "from_dict lax data = Inr g" and "\<not> truthy (dict_get data ''edges'' (JArr []))"
  shows "g_edges g = map edge_of_callsite (g_callsites g)"
proof -
  from assms obtain cjs css es where
    css: "map_exn (callsite_of lax) cjs = Inr css" and
    es: "map_exn derived_edge css = Inr es" and
    g: "g_callsites g = css" "g_edges g = es"
    by (auto simp: from_dict_def Let_def split: sum.splits)
  have "\<forall>cs\<in>set css. derived_edge cs = Inr (edge_of_callsite cs)"
    using map_exn_Inr_all[OF css] by (auto dest!: callsite_of_stripped intro: derived_edge_stripped)
  then have "map_exn derived_edge css = Inr (map edge_of_callsite css)" by (rule map_exn_total)
  with es g show ?thesis by simp
qed

lemma from_dict_ignores_calls:
  "from_dict lax ((''calls'', v) # data) = from_dict lax data"
  by (simp add: from_dict_def dict_get_def)

lemma from_dict_callSites:
  "from_dict lax [(''functions'', fs), (''callSites'', cs)]
   = from_dict lax [(''functions'', fs), (''callsites'', cs)]"
  by (simp add: from_dict_def dict_get_def)

lemma callsite_of_alias:
  "callsite_of lax (JObj [(''id'', i), (''caller_id'', c), (''callee_id'', k)])
   = callsite_of lax (JObj [(''id'', i), (''caller'', c), (''callee'', k)])"
  by (simp add: callsite_of_def dict_get_def)

text \<open>
  Claim C4, as amended. \<open>from_dict\<close> never reads the key \<open>calls\<close>: a document parses to
  the same result with and without it. It reads the call sites from \<open>callsites\<close> or from
  \<open>callSites\<close>, and a record written with \<open>caller_id\<close> and \<open>callee_id\<close> parses as the one
  written with \<open>caller\<close> and \<open>callee\<close>. When the value under \<open>edges\<close> is absent or falsy,
  the edges of the parsed graph are the edges derived from its call sites, one for each in
  the same order, with the call site's id as \<open>callsite_id\<close>.
\<close>

theorem from_dict_keys_and_derived_edges:
  "from_dict lax ((''calls'', v) # data) = from_dict lax data
   \<and> from_dict lax [(''functions'', fs), (''callSites'', cs)]
       = from_dict lax [(''functions'', fs), (''callsites'', cs)]
   \<and> callsite_of lax (JObj [(''id'', i), (''caller_id'', c), (''callee_id'', k)])
       = callsite_of lax (JObj [(''id'', i), (''caller'', c), (''callee'', k)])
   \<and> (from_dict lax doc = Inr g \<and> \<not> truthy (dict_get doc ''edges'' (JArr []))
        \<longrightarrow> g_edges g = map edge_of_callsite (g_callsites g))"
  using from_dict_ignores_calls[of lax v data] from_dict_callSites[of lax fs cs]
        callsite_of_alias[of lax i c k] from_dict_derived[of lax doc g]
  by blast

theorem from_dict_keys_and_derived_edges_witness:
  "from_dict (\<lambda>x. None) alias_document
     = Inr \<lparr>g_functions =
              [\<lparr>f_id = ''f1'', f_name = ''main'', f_file = None, f_signature = None\<rparr>,
               \<lparr>f_id = ''f2'', f_name = ''a'', f_file = None, f_signature = None\<rparr>],
            g_callsites =
              [\<lparr>cs_id = ''c1'', cs_caller = ''f1'', cs_callee = ''f2'', cs_file = None,
                cs_line = None\<rparr>],
            g_edges = [\<lparr>e_caller = ''f1'', e_callee = ''f2'', e_callsite_id = Some ''c1''\<rparr>]\<rparr>
   \<and> \<not> truthy (dict_get alias_document ''edges'' (JArr []))
   \<and> [\<lparr>e_caller = ''f1'', e_callee = ''f2'', e_callsite_id = Some ''c1''\<rparr>]
       = map edge_of_callsite
           [\<lparr>cs_id = ''c1'', cs_caller = ''f1'', cs_callee = ''f2'', cs_file = None,
             cs_line = None\<rparr>]"
proof -
  have p: "from_dict (\<lambda>x. None) alias_document
     = Inr \<lparr>g_functions =
              [\<lparr>f_id = ''f1'', f_name = ''main'', f_file = None, f_signature = None\<rparr>,
               \<lparr>f_id = ''f2'', f_name = ''a'', f_file = None, f_signature = None\<rparr>],
            g_callsites =
              [\<lparr>cs_id = ''c1'', cs_caller = ''f1'', cs_callee = ''f2'', cs_file = None,
                cs_line = None\<rparr>],
            g_edges = [\<lparr>e_caller = ''f1'', e_callee = ''f2'', e_callsite_id = Some ''c1''\<rparr>]\<rparr>"
    by (simp add: from_dict_def alias_document_def dict_get_def py_iter_def truthy_def
          Function_of_def Function_init_def callsite_of_def CallSite_init_def derived_edge_def
          Edge_init_def required_str_def optional_str_def optional_line_def not_empty_def
          strip_def lstrip_def rstrip_def isspace_def)
  have t: "\<not> truthy (dict_get alias_document ''edges'' (JArr []))"
    by (simp add: alias_document_def dict_get_def truthy_def)
  show ?thesis
    using p t from_dict_keys_and_derived_edges
                [of "\<lambda>x. None" JNull "[]" JNull JNull JNull JNull JNull alias_document
                    "\<lparr>g_functions =
              [\<lparr>f_id = ''f1'', f_name = ''main'', f_file = None, f_signature = None\<rparr>,
               \<lparr>f_id = ''f2'', f_name = ''a'', f_file = None, f_signature = None\<rparr>],
            g_callsites =
              [\<lparr>cs_id = ''c1'', cs_caller = ''f1'', cs_callee = ''f2'', cs_file = None,
                cs_line = None\<rparr>],
            g_edges = [\<lparr>e_caller = ''f1'', e_callee = ''f2'', e_callsite_id = Some ''c1''\<rparr>]\<rparr>"]
    by simp
qed

text \<open>
  The claim as stated fails on the document of the scenario: its calls are under \<open>calls\<close>,
  so the parsed graph has the three functions, no call site and no edge.
\<close>

theorem scenario_document_has_no_edges:
  "from_dict (\<lambda>x. None) scenario_document
   = Inr \<lparr>g_functions =
            [\<lparr>f_id = ''f1'', f_name = ''main'', f_file = None, f_signature = None\<rparr>,
             \<lparr>f_id = ''f2'', f_name = ''a'', f_file = None, f_signature = None\<rparr>,
             \<lparr>f_id = ''f3'', f_name = ''b'', f_file = None, f_signature = None\<rparr>],
          g_callsites = [], g_edges = []\<rparr>"
  by (simp add: from_dict_def scenario_document_def dict_get_def py_iter_def truthy_def
        Function_of_def Function_init_def required_str_def optional_str_def not_empty_def
        strip_def lstrip_def rstrip_def isspace_def)

text \<open>Under the key \<open>callsites\<close> the records of the scenario would be rejected, since they
  have no \<open>id\<close>.\<close>

lemma scenario_calls_have_no_id:
  "callsite_of (\<lambda>x. None) (JObj [(''caller'', JStr ''f1''), (''callee'', JStr ''f2'')])
   = Inl PydanticError"
  by (simp add: callsite_of_def CallSite_init_def dict_get_def required_str_def)

section \<open>Properties of the Writer and of the storage gateway\<close>

text \<open>
  \<open>DB.execute\<close> returns a list, and \<open>_compute_depths\<close> calls \<open>fetchone\<close> on it: the
  depth computation raises before it has resolved the root.
\<close>

lemma compute_depths_raises: "compute_depths d root = (Some AttributeError, d)"
  by (simp add: compute_depths_def compute_depths_from_def fetchone_def)

text \<open>
  Loading the graph of the scenario into an empty database: the functions and the call
  sites are stored and committed, no edge is stored, and the load raises.
\<close>

lemma load_scenario:
  "load_callgraph fresh_db scenario_graph ''main''
   = (Some AttributeError,
      \<lparr>has_schema = True, committed = scenario_tables, working = scenario_tables\<rparr>)"
  by (simp add: load_callgraph_def and_then_def insert_functions_def insert_callsites_def
        insert_edges_def executemany_def conn_execute_write_def compute_depths_raises
        upsert_function_stmt_def upsert_callsite_stmt_def insert_or_ignore_edge_stmt_def
        edges_depth_default_def commit_def rollback_def fresh_db_def init_schema_def new_db_def
        empty_tables_def scenario_graph_def scenario_tables_def function_params_def
        callsite_params_def)

lemma valid_scenario: "validate_callgraph scenario_graph = Inr ()"
  by (simp add: validate_callgraph_def scenario_graph_def callsite_refs_def edge_refs_def)

text \<open>
  The traversal itself, run on a database that holds the three edges of the scenario with
  \<open>f1\<close> as the root: the depths are 0 for \<open>f1\<close> and 1 for \<open>f2\<close> and \<open>f3\<close>, and the edges
  \<open>f1 \<rightarrow> f2\<close>, \<open>f2 \<rightarrow> f3\<close>, \<open>f1 \<rightarrow> f3\<close> are updated to the depths 0, 1, 0.
\<close>

lemma scenario_adjacency:
  "build_adjacency (DB_execute scenario_edges_db select_edge_ends)
   = [(''f1'', [''f2'', ''f3'']), (''f2'', [''f3''])]"
  by (simp add: build_adjacency_def DB_execute_def conn_execute_def fetchall_def
        select_edge_ends_def scenario_edges_db_def Let_def)

lemma scenario_bfs:
  "bfs [(''f1'', [''f2'', ''f3'']), (''f2'', [''f3''])] [''f1'' \<mapsto> 0] [''f1'']
   = Inr [''f1'' \<mapsto> 0, ''f2'' \<mapsto> 1, ''f3'' \<mapsto> 1]"
  by (simp add: bfs.simps neighbors_def)

lemma scenario_assign:
  "assign_depths scenario_edges_db ''f1''
   = executemany scenario_edges_db update_depth_stmt
       [(0, ''f1'', ''f2''), (0, ''f1'', ''f3''), (1, ''f2'', ''f3'')]"
  by (simp add: assign_depths_def iter_rows_def scenario_adjacency scenario_bfs depth_updates_def
        Let_def)

lemma scenario_traversal:
  "map er_depth (t_edges (committed (snd (assign_depths scenario_edges_db ''f1'')))) = [0, 1, 0]"
  unfolding scenario_assign
  by (simp add: executemany_def conn_execute_write_def update_depth_stmt_def commit_def
        scenario_edges_db_def Let_def)

lemma valid_overflow: "validate_callgraph overflow_graph = Inr ()"
  by (simp add: validate_callgraph_def overflow_graph_def callsite_refs_def)

text \<open>
  A load that fails in the batch of the call sites: the functions, committed by their own
  batch, stay; the call sites of the failed batch are rolled back.
\<close>

lemma load_overflow:
  "load_callgraph fresh_db overflow_graph ''main''
   = (Some OverflowError,
      \<lparr>has_schema = True,
       committed = \<lparr>t_functions = map function_params (g_functions overflow_graph),
                    t_callsites = [], t_edges = []\<rparr>,
       working = \<lparr>t_functions = map function_params (g_functions overflow_graph),
                  t_callsites = [], t_edges = []\<rparr>\<rparr>)"
  by (simp add: load_callgraph_def and_then_def insert_functions_def insert_callsites_def
        insert_edges_def executemany_def conn_execute_write_def compute_depths_raises
        upsert_function_stmt_def upsert_callsite_stmt_def fits_int64_def
        commit_def rollback_def fresh_db_def init_schema_def new_db_def
        empty_tables_def overflow_graph_def function_params_def callsite_params_def)

text \<open>
  Claim C2, evaluated at two failing inputs. The claim says that a load that raises leaves
  the store as it was before. Loading the graph of the scenario into an empty database
  raises in the depth computation and leaves the functions and call sites committed; loading
  a graph whose second call site has a line number beyond 64 bits raises in the batch of the
  call sites and leaves the functions committed.
\<close>

theorem load_keeps_committed_batches:
  "validate_callgraph scenario_graph = Inr ()
   \<and> validate_callgraph overflow_graph = Inr ()
   \<and> fst (load_callgraph fresh_db scenario_graph ''main'') = Some AttributeError
   \<and> committed (snd (load_callgraph fresh_db scenario_graph ''main'')) = scenario_tables
   \<and> committed fresh_db = empty_tables
   \<and> scenario_tables \<noteq> empty_tables
   \<and> fst (load_callgraph fresh_db overflow_graph ''main'') = Some OverflowError
   \<and> t_functions (committed (snd (load_callgraph fresh_db overflow_graph ''main'')))
       = map function_params (g_functions overflow_graph)
   \<and> t_callsites (committed (snd (load_callgraph fresh_db overflow_graph ''main''))) = []"
  by (simp add: load_scenario load_overflow valid_scenario valid_overflow)
     (simp add: fresh_db_def init_schema_def new_db_def commit_def scenario_tables_def
        empty_tables_def scenario_graph_def)

text \<open>
  Claim C3, evaluated at the failing input. The claim says that the load of the scenario
  gives the edges \<open>main \<rightarrow> a\<close> and \<open>main \<rightarrow> b\<close> the depth 0 and \<open>a \<rightarrow> b\<close> the depth 1. The
  load raises in the depth computation, the store holds no edge afterwards, and the depth
  summary is empty.
\<close>

theorem load_assigns_no_depth:
  "validate_callgraph scenario_graph = Inr ()
   \<and> fst (load_callgraph fresh_db scenario_graph ''main'') = Some AttributeError
   \<and> t_edges (committed (snd (load_callgraph fresh_db scenario_graph ''main''))) = []
   \<and> t_edges (working (snd (load_callgraph fresh_db scenario_graph ''main''))) = []
   \<and> depth_summary (snd (load_callgraph fresh_db scenario_graph ''main'')) = []"
  by (simp add: valid_scenario load_scenario scenario_tables_def depth_summary_def
        DB_execute_def conn_execute_def fetchall_def select_depth_summary_def)

text \<open>
  Claim C7, evaluated at the failing input. The graph of the scenario is valid and has
  edges from \<open>f1\<close>, named \<open>main\<close>, to \<open>f2\<close> and \<open>f3\<close>; after the load, \<open>get_callees\<close>
  returns no function for the root, by name or by id.
\<close>

theorem get_callees_after_load_is_empty:
  "validate_callgraph scenario_graph = Inr ()
   \<and> map e_callee (filter (\<lambda>e. e_caller e = ''f1'') (g_edges scenario_graph)) = [''f2'', ''f3'']
   \<and> get_callees (snd (load_callgraph fresh_db scenario_graph ''main'')) ''main'' = []
   \<and> get_callees (snd (load_callgraph fresh_db scenario_graph ''main'')) ''f1'' = []"
  by (simp add: valid_scenario load_scenario)
     (simp add: scenario_graph_def scenario_tables_def get_callees_def DB_execute_def
        conn_execute_def fetchall_def select_callees_def)

subsection \<open>Reads through \<open>DB.execute\<close>\<close>

lemma DB_execute_cases:
  "DB_execute d q = (if has_schema d then q (working d) else [])"
  by (simp add: DB_execute_def conn_execute_def fetchall_def)

text \<open>
  Claim C9, as amended. A read through \<open>DB.execute\<close> never raises: when the engine fails
  the result is the empty list, as it is when no row is found, and otherwise it is the list
  of the rows. On a database without tables every query of the query layer and both reads
  of the depth computation fail in the engine and return the empty list, and
  \<open>function_detail\<close> returns \<open>None\<close>, as it does when no function matches.
\<close>

theorem DB_execute_swallows_failures:
  "(conn_execute d q = Inl e \<longrightarrow> DB_execute d q = [])
   \<and> (conn_execute d q = Inr (PyCursor rows) \<longrightarrow> DB_execute d q = rows)
   \<and> (\<not> has_schema d \<longrightarrow>
        conn_execute d (select_function x) = Inl OperationalError
        \<and> list_functions d = [] \<and> get_callees d x = [] \<and> get_callers d x = []
        \<and> depth_summary d = [] \<and> function_detail d x = None
        \<and> DB_execute d (select_root_ids x) = [] \<and> DB_execute d select_edge_ends = [])
   \<and> (has_schema d \<and> select_function x (working d) = [] \<longrightarrow> function_detail d x = None)"
  by (auto simp: DB_execute_def conn_execute_def fetchall_def list_functions_def get_callees_def
        get_callers_def depth_summary_def function_detail_def split: if_splits)

theorem DB_execute_swallows_failures_witness:
  "conn_execute new_db (select_function ''main'') = Inl OperationalError
   \<and> DB_execute new_db (select_function ''main'') = []
   \<and> conn_execute fresh_db (select_function ''main'') = Inr (PyCursor [])
   \<and> DB_execute fresh_db (select_function ''main'') = []
   \<and> \<not> has_schema new_db
   \<and> function_detail new_db ''main'' = None
   \<and> has_schema fresh_db
   \<and> function_detail fresh_db ''main'' = None"
proof -
  have a: "conn_execute new_db (select_function ''main'') = Inl OperationalError"
    by (simp add: conn_execute_def new_db_def)
  have b: "conn_execute fresh_db (select_function ''main'') = Inr (PyCursor [])"
    by (simp add: conn_execute_def fresh_db_def init_schema_def commit_def new_db_def
          empty_tables_def select_function_def)
  have c: "\<not> has_schema new_db" by (simp add: new_db_def)
  have d: "has_schema fresh_db \<and> select_function ''main'' (working fresh_db) = []"
    by (simp add: fresh_db_def init_schema_def commit_def new_db_def empty_tables_def
          select_function_def)
  show ?thesis
    using a b c d
      DB_execute_swallows_failures[of new_db "select_function ''main''" OperationalError "[]" "''main''"]
      DB_execute_swallows_failures[of fresh_db "select_function ''main''" OperationalError "[]" "''main''"]
    by simp
qed

text \<open>
  The claim as stated fails on a database without tables: the engine raises, and the
  queries return an empty result instead of an error.
\<close>

theorem failed_read_returns_empty:
  "conn_execute new_db select_depth_summary = Inl OperationalError
   \<and> depth_summary new_db = []
   \<and> list_functions new_db = []
   \<and> get_callees new_db ''main'' = []
   \<and> function_detail new_db ''main'' = None"
  by (simp add: conn_execute_def new_db_def DB_execute_def depth_summary_def list_functions_def
        get_callees_def function_detail_def)

subsection \<open>Resolving the root\<close>

lemma first_row_filter: "first_row (map f (filter P xs)) = map_option f (find P xs)"
  by (induction xs) (auto simp: first_row_def)

lemma load_ambiguous:
  "load_callgraph fresh_db ambiguous_graph ''f1''
   = (Some AttributeError,
      \<lparr>has_schema = True,
       committed = \<lparr>t_functions = map function_params (g_functions ambiguous_graph),
                    t_callsites = [], t_edges = []\<rparr>,
       working = \<lparr>t_functions = map function_params (g_functions ambiguous_graph),
                  t_callsites = [], t_edges = []\<rparr>\<rparr>)"
  by (simp add: load_callgraph_def and_then_def insert_functions_def insert_callsites_def
        insert_edges_def executemany_def conn_execute_write_def compute_depths_raises
        upsert_function_stmt_def commit_def rollback_def fresh_db_def init_schema_def new_db_def
        empty_tables_def ambiguous_graph_def function_params_def)

text \<open>
  Claim C5, as amended. The query that resolves the root selects the stored functions whose
  id or whose name equals the argument: it gives no row exactly when no function matches
  either way, and its first row is the first stored function, in row order, that matches by
  id or by name. A match by id has no priority over a match by name.
\<close>

theorem root_query_row_order:
  "(select_root_ids root t = [] \<longleftrightarrow>
      (\<forall>r\<in>set (t_functions t). fr_id r \<noteq> root \<and> fr_name r \<noteq> root))
   \<and> set (select_root_ids root t)
       = fr_id ` {r \<in> set (t_functions t). fr_id r = root \<or> fr_name r = root}
   \<and> first_row (select_root_ids root t)
       = map_option fr_id (find (\<lambda>r. fr_id r = root \<or> fr_name r = root) (t_functions t))"
  by (auto simp: select_root_ids_def first_row_filter filter_empty_conv)

theorem root_query_row_order_witness:
  "select_root_ids ''main'' scenario_tables \<noteq> []
   \<and> set (select_root_ids ''main'' scenario_tables) = {''f1''}
   \<and> first_row (select_root_ids ''main'' scenario_tables) = Some ''f1''
   \<and> first_row (select_root_ids ''f1'' scenario_tables) = Some ''f1''"
  using root_query_row_order[of "''main''" scenario_tables]
        root_query_row_order[of "''f1''" scenario_tables]
  by (simp add: select_root_ids_def scenario_tables_def scenario_graph_def function_params_def
        first_row_def)

text \<open>
  The claim as stated fails twice. After the load of a valid graph in which \<open>f1\<close> is the
  name of the first function and the id of the second, the first row of the query for
  \<open>f1\<close> is the function matched by name. And a load whose root matches no function does not
  complete: it raises as every load does.
\<close>

theorem root_query_prefers_no_id:
  "validate_callgraph ambiguous_graph = Inr ()
   \<and> select_root_ids ''f1'' (committed (snd (load_callgraph fresh_db ambiguous_graph ''f1'')))
       = [''f2'', ''f1'']
   \<and> first_row (select_root_ids ''f1''
                  (committed (snd (load_callgraph fresh_db ambiguous_graph ''f1''))))
       = Some ''f2''
   \<and> select_root_ids ''nosuch'' scenario_tables = []
   \<and> fst (load_callgraph fresh_db scenario_graph ''nosuch'') = Some AttributeError"
proof -
  have n: "load_callgraph fresh_db scenario_graph ''nosuch''
           = load_callgraph fresh_db scenario_graph ''main''"
    by (simp add: load_callgraph_def compute_depths_raises)
  have v: "validate_callgraph ambiguous_graph = Inr ()"
    by (simp add: validate_callgraph_def ambiguous_graph_def)
  show ?thesis
    by (simp add: v n load_scenario load_ambiguous)
       (simp add: select_root_ids_def ambiguous_graph_def function_params_def first_row_def
          scenario_tables_def scenario_graph_def)
qed

subsection \<open>Loading twice\<close>

text \<open>An upsert of a row that the table already holds under its key changes nothing, and
  after a batch with distinct keys the table holds every row of the batch.\<close>

lemma upsert_triv: "find (\<lambda>r. key r = key p) t = Some p \<Longrightarrow> upsert key t p = t"
  by (induction t) (auto split: if_splits)

lemma upsert_find_same: "find (\<lambda>r. key r = key p) (upsert key t p) = Some p"
  by (induction t) auto

lemma upsert_find_other:
  "key q \<noteq> key p \<Longrightarrow>
   find (\<lambda>r. key r = key q) (upsert key t p) = find (\<lambda>r. key r = key q) t"
  by (induction t) auto

lemma foldl_upsert_find_other:
  "key q \<notin> key ` set ps \<Longrightarrow>
   find (\<lambda>r. key r = key q) (foldl (upsert key) t ps) = find (\<lambda>r. key r = key q) t"
  by (induction ps arbitrary: t) (auto simp: upsert_find_other)

lemma foldl_upsert_find:
  "distinct (map key ps) \<Longrightarrow> p \<in> set ps \<Longrightarrow>
   find (\<lambda>r. key r = key p) (foldl (upsert key) t ps) = Some p"
proof (induction ps arbitrary: t)
  case Nil
  then show ?case by simp
next
  case (Cons a ps)
  show ?case
  proof (cases "p = a")
    case True
    then have "key p \<notin> key ` set ps" using Cons.prems(1) by auto
    then show ?thesis using True by (simp add: foldl_upsert_find_other upsert_find_same)
  next
    case False
    then show ?thesis using Cons by auto
  qed
qed

lemma foldl_upsert_fixed:
  "\<forall>p\<in>set ps. find (\<lambda>r. key r = key p) t = Some p \<Longrightarrow> foldl (upsert key) t ps = t"
  by (induction ps) (auto simp: upsert_triv)

lemma foldl_upsert_idem:
  "distinct (map key ps) \<Longrightarrow>
   foldl (upsert key) (foldl (upsert key) t ps) ps = foldl (upsert key) t ps"
  by (rule foldl_upsert_fixed) (simp add: foldl_upsert_find)

lemma distinct_function_params:
  "distinct (map f_id fs) \<Longrightarrow> distinct (map fr_id (map function_params fs))"
  by (simp add: function_params_def comp_def)

lemma distinct_callsite_params:
  "distinct (map cs_id css) \<Longrightarrow> distinct (map cr_id (map callsite_params css))"
  by (simp add: callsite_params_def comp_def)

lemma store_functions_idem:
  "distinct (map f_id fs) \<Longrightarrow> store_functions (store_functions t fs) fs = store_functions t fs"
  by (simp add: store_functions_def foldl_upsert_idem[OF distinct_function_params])

lemma store_callsites_idem:
  "distinct (map cs_id css) \<Longrightarrow> store_callsites (store_callsites t css) css = store_callsites t css"
  by (simp add: store_callsites_def foldl_upsert_idem[OF distinct_callsite_params])

lemma store_commute:
  "store_functions (store_callsites t css) fs = store_callsites (store_functions t fs) css"
  by (simp add: store_functions_def store_callsites_def)

lemma execute_each_functions:
  "has_schema d \<Longrightarrow>
   execute_each d upsert_function_stmt fs = (None, d\<lparr>working := store_functions (working d) fs\<rparr>)"
proof (induction fs arbitrary: d)
  case Nil
  then show ?case by (simp add: store_functions_def)
next
  case (Cons f fs)
  let ?d = "d\<lparr>working := (working d)\<lparr>t_functions :=
              upsert fr_id (t_functions (working d)) (function_params f)\<rparr>\<rparr>"
  have "execute_each d upsert_function_stmt (f # fs) = execute_each ?d upsert_function_stmt fs"
    using Cons.prems by (simp add: conn_execute_write_def upsert_function_stmt_def)
  also have "\<dots> = (None, ?d\<lparr>working := store_functions (working ?d) fs\<rparr>)"
    using Cons.prems by (intro Cons.IH) simp
  finally show ?case by (simp add: store_functions_def)
qed

lemma execute_each_callsites_ok:
  "has_schema d \<Longrightarrow> \<forall>cs\<in>set css. line_fits cs \<Longrightarrow>
   execute_each d upsert_callsite_stmt css = (None, d\<lparr>working := store_callsites (working d) css\<rparr>)"
proof (induction css arbitrary: d)
  case Nil
  then show ?case by (simp add: store_callsites_def)
next
  case (Cons c css)
  let ?d = "d\<lparr>working := (working d)\<lparr>t_callsites :=
              upsert cr_id (t_callsites (working d)) (callsite_params c)\<rparr>\<rparr>"
  have "execute_each d upsert_callsite_stmt (c # css) = execute_each ?d upsert_callsite_stmt css"
    using Cons.prems by (simp add: conn_execute_write_def upsert_callsite_stmt_def line_fits_def)
  also have "\<dots> = (None, ?d\<lparr>working := store_callsites (working ?d) css\<rparr>)"
    using Cons.prems by (intro Cons.IH) simp_all
  finally show ?case by (simp add: store_callsites_def)
qed

lemma execute_each_callsites_fail:
  "has_schema d \<Longrightarrow> \<not> (\<forall>cs\<in>set css. line_fits cs) \<Longrightarrow>
   \<exists>w. execute_each d upsert_callsite_stmt css = (Some OverflowError, d\<lparr>working := w\<rparr>)"
proof (induction css arbitrary: d)
  case Nil
  then show ?case by simp
next
  case (Cons c css)
  show ?case
  proof (cases "line_fits c")
    case False
    then have "execute_each d upsert_callsite_stmt (c # css)
               = (Some OverflowError, d\<lparr>working := working d\<rparr>)"
      using Cons.prems(1) by (simp add: conn_execute_write_def upsert_callsite_stmt_def line_fits_def)
    then show ?thesis by blast
  next
    case True
    let ?d = "d\<lparr>working := (working d)\<lparr>t_callsites :=
                upsert cr_id (t_callsites (working d)) (callsite_params c)\<rparr>\<rparr>"
    have e: "execute_each d upsert_callsite_stmt (c # css) = execute_each ?d upsert_callsite_stmt css"
      using Cons.prems(1) True
      by (simp add: conn_execute_write_def upsert_callsite_stmt_def line_fits_def)
    have "\<exists>w. execute_each ?d upsert_callsite_stmt css = (Some OverflowError, ?d\<lparr>working := w\<rparr>)"
      using Cons.prems True by (intro Cons.IH) simp_all
    then obtain w where "execute_each ?d upsert_callsite_stmt css = (Some OverflowError, ?d\<lparr>working := w\<rparr>)"
      by blast
    then have "execute_each d upsert_callsite_stmt (c # css) = (Some OverflowError, d\<lparr>working := w\<rparr>)"
      using e by simp
    then show ?thesis by blast
  qed
qed

lemma execute_each_no_schema:
  "\<not> has_schema d \<Longrightarrow> ps \<noteq> [] \<Longrightarrow> execute_each d stmt ps = (Some OperationalError, d)"
  by (cases ps) (auto simp: conn_execute_write_def)

lemma execute_each_edges:
  "has_schema d \<Longrightarrow> execute_each d insert_or_ignore_edge_stmt es = (None, d)"
proof (induction es)
  case Nil
  then show ?case by simp
next
  case (Cons e es)
  have "conn_execute_write d insert_or_ignore_edge_stmt e = (None, d)"
    using Cons.prems
    by (simp add: conn_execute_write_def insert_or_ignore_edge_stmt_def edges_depth_default_def)
  then show ?case using Cons by simp
qed

text \<open>A graph that passes the validator has a function, and neither its functions nor its
  call sites repeat an id.\<close>

lemma valid_distinct:
  assumes "validate_callgraph g = Inr ()"
  shows "g_functions g \<noteq> [] \<and> distinct (map f_id (g_functions g))
         \<and> distinct (map cs_id (g_callsites g))"
proof -
  have ne: "g_functions g \<noteq> []" using assms by (auto simp: validate_callgraph_def)
  have df: "distinct (map f_id (g_functions g))"
  proof (rule ccontr)
    assume "\<not> distinct (map f_id (g_functions g))"
    then have "snd (scan_ids {} [] (map f_id (g_functions g))) \<noteq> []"
      by (simp add: scan_ids_empty)
    then show False using assms ne
      by (auto simp: validate_callgraph_def Let_def case_prod_beta)
  qed
  have dc: "distinct (map cs_id (g_callsites g))"
  proof (rule ccontr)
    assume "\<not> distinct (map cs_id (g_callsites g))"
    then have "snd (scan_ids {} [] (map cs_id (g_callsites g))) \<noteq> []"
      by (simp add: scan_ids_empty)
    then show False using assms
      by (simp add: validate_callgraph_unfold[OF ne df] Let_def)
  qed
  show ?thesis using ne df dc by simp
qed

text \<open>
  What a load does, by the state of the database and the line numbers of the graph. It
  raises in every case: without tables in the first batch, with a line number that cannot be
  bound in the batch of the call sites, and otherwise in the depth computation. No case
  stores an edge.
\<close>

lemma load_no_schema:
  "\<not> has_schema d \<Longrightarrow> g_functions g \<noteq> [] \<Longrightarrow>
   load_callgraph d g r = (Some OperationalError, rollback d)"
  by (simp add: load_callgraph_def insert_functions_def executemany_def execute_each_no_schema
        and_then_def)

lemma settled_update [simp]:
  "has_schema d \<Longrightarrow> d\<lparr>working := t, committed := t\<rparr> = settled t"
  by (cases d) (simp add: settled_def)

lemma load_ok:
  assumes "has_schema d" and "\<forall>cs\<in>set (g_callsites g). line_fits cs"
  shows "load_callgraph d g r
         = (Some AttributeError,
            settled (store_callsites (store_functions (working d) (g_functions g)) (g_callsites g)))"
proof -
  let ?T1 = "store_functions (working d) (g_functions g)"
  let ?T2 = "store_callsites ?T1 (g_callsites g)"
  have f: "insert_functions d (g_functions g) = (None, settled ?T1)"
    using assms(1) by (simp add: insert_functions_def executemany_def execute_each_functions commit_def)
  have s1: "has_schema (settled ?T1)" "working (settled ?T1) = ?T1" by (simp_all add: settled_def)
  have c: "insert_callsites (settled ?T1) (g_callsites g) = (None, settled ?T2)"
  proof (cases "g_callsites g = []")
    case True
    then show ?thesis by (simp add: insert_callsites_def store_callsites_def)
  next
    case False
    have "settled ?T1\<lparr>working := ?T2, committed := ?T2\<rparr> = settled ?T2"
      by (simp add: settled_def)
    then show ?thesis using False assms(2) s1
      by (simp add: insert_callsites_def executemany_def execute_each_callsites_ok commit_def)
  qed
  have e: "insert_edges (settled ?T2) (g_edges g) = (None, settled ?T2)"
    by (simp add: insert_edges_def executemany_def execute_each_edges commit_def settled_def)
  show ?thesis
    by (simp add: load_callgraph_def and_then_def f c e compute_depths_raises)
       (simp add: rollback_def settled_def)
qed

lemma load_overflowing:
  assumes "has_schema d" and "\<not> (\<forall>cs\<in>set (g_callsites g). line_fits cs)"
  shows "load_callgraph d g r
         = (Some OverflowError, settled (store_functions (working d) (g_functions g)))"
proof -
  let ?T1 = "store_functions (working d) (g_functions g)"
  have f: "insert_functions d (g_functions g) = (None, settled ?T1)"
    using assms(1) by (simp add: insert_functions_def executemany_def execute_each_functions commit_def)
  have ne: "g_callsites g \<noteq> []" using assms(2) by auto
  obtain w where w: "execute_each (settled ?T1) upsert_callsite_stmt (g_callsites g)
                     = (Some OverflowError, settled ?T1\<lparr>working := w\<rparr>)"
    using execute_each_callsites_fail[of "settled ?T1" "g_callsites g"] assms(2)
    by (auto simp: settled_def)
  have c: "insert_callsites (settled ?T1) (g_callsites g)
           = (Some OverflowError, settled ?T1\<lparr>working := w\<rparr>)"
    using ne w by (simp add: insert_callsites_def executemany_def)
  show ?thesis
    by (simp add: load_callgraph_def and_then_def f c)
       (simp add: rollback_def settled_def)
qed

text \<open>
  Claim C1. For a valid graph, any root and any database, a second load with the same graph
  and root ends with the same exception and leaves the database, committed tables and
  tables of the connection alike, exactly as the first load left it: no row is added, and no
  depth changes.
\<close>

theorem load_twice_same_state:
  assumes "validate_callgraph g = Inr ()"
  shows "load_callgraph (snd (load_callgraph d g r)) g r = load_callgraph d g r"
proof -
  from valid_distinct[OF assms] have ne: "g_functions g \<noteq> []"
    and df: "distinct (map f_id (g_functions g))"
    and dc: "distinct (map cs_id (g_callsites g))" by simp_all
  show ?thesis
  proof (cases "has_schema d")
    case False
    then have "\<not> has_schema (rollback d)" by (simp add: rollback_def)
    then show ?thesis using False ne by (simp add: load_no_schema rollback_def)
  next
    case True
    have hs: "\<And>t. has_schema (settled t)" "\<And>t. working (settled t) = t"
      by (simp_all add: settled_def)
    show ?thesis
    proof (cases "\<forall>cs\<in>set (g_callsites g). line_fits cs")
      case ok: True
      show ?thesis
        using True ok
        by (simp add: load_ok hs store_commute store_functions_idem[OF df]
              store_callsites_idem[OF dc])
    next
      case bad: False
      show ?thesis
        using True bad
        by (simp add: load_overflowing hs store_functions_idem[OF df])
    qed
  qed
qed

theorem load_twice_same_state_witness:
  "validate_callgraph scenario_graph = Inr ()
   \<and> load_callgraph (snd (load_callgraph fresh_db scenario_graph ''main'')) scenario_graph ''main''
       = (Some AttributeError,
          \<lparr>has_schema = True, committed = scenario_tables, working = scenario_tables\<rparr>)"
  using load_twice_same_state[OF valid_scenario, of fresh_db "''main''"]
  by (simp add: valid_scenario load_scenario)

subsection \<open>The traversal and the edges it updates\<close>

text \<open>The list that \<open>adjacency\<close> holds for a caller is the list of its callees in the
  order of the rows.\<close>

lemma neighbors_adjacency_add:
  "neighbors (adjacency_add adj (a, b)) c = neighbors adj c @ (if a = c then [b] else [])"
  by (induction adj) (auto simp: neighbors_def)

lemma neighbors_foldl:
  "neighbors (foldl adjacency_add adj rows) c
   = neighbors adj c @ map snd (filter (\<lambda>p. fst p = c) rows)"
proof (induction rows arbitrary: adj)
  case Nil
  then show ?case by simp
next
  case (Cons p rows)
  obtain a b where p: "p = (a, b)" by (cases p)
  show ?case unfolding p using Cons.IH[of "adjacency_add adj (a, b)"]
    by (simp add: neighbors_adjacency_add)
qed

lemma neighbors_build:
  "neighbors (build_adjacency rows) c = map snd (filter (\<lambda>p. fst p = c) rows)"
proof -
  have "neighbors [] c = []" by (simp add: neighbors_def)
  then show ?thesis unfolding build_adjacency_def neighbors_foldl by simp
qed

lemma neighbors_in_rows: "k \<in> set (neighbors (build_adjacency rows) c) \<Longrightarrow> (c, k) \<in> set rows"
  by (auto simp: neighbors_build)

text \<open>Every node that the traversal gives a depth can be reached from the root along
  stored edges, and the traversal ends without a \<open>KeyError\<close>.\<close>

lemma visit_sound:
  assumes "\<forall>k\<in>set nbs. (root, k) \<in> R\<^sup>*"
    and "\<forall>y. depths y \<noteq> None \<longrightarrow> (root, y) \<in> R\<^sup>*"
    and "set queue \<subseteq> dom depths"
  shows "(\<forall>y. fst (visit cd (depths, queue) nbs) y \<noteq> None \<longrightarrow> (root, y) \<in> R\<^sup>*)
         \<and> set (snd (visit cd (depths, queue) nbs)) \<subseteq> dom (fst (visit cd (depths, queue) nbs))"
  using assms
proof (induction nbs arbitrary: depths queue)
  case Nil
  then show ?case by simp
next
  case (Cons nb nbs)
  show ?case
  proof (cases "depths nb = None")
    case True
    have 1: "\<forall>k\<in>set nbs. (root, k) \<in> R\<^sup>*" using Cons.prems(1) by simp
    have 2: "\<forall>y. (depths(nb \<mapsto> cd + 1)) y \<noteq> None \<longrightarrow> (root, y) \<in> R\<^sup>*"
      using Cons.prems(1,2) by auto
    have 3: "set (queue @ [nb]) \<subseteq> dom (depths(nb \<mapsto> cd + 1))"
      using Cons.prems(3) by auto
    have "visit cd (depths, queue) (nb # nbs)
          = visit cd (depths(nb \<mapsto> cd + 1), queue @ [nb]) nbs"
      using True by simp
    with Cons.IH[OF 1 2 3] show ?thesis by metis
  next
    case False
    have 1: "\<forall>k\<in>set nbs. (root, k) \<in> R\<^sup>*" using Cons.prems(1) by simp
    have "visit cd (depths, queue) (nb # nbs) = visit cd (depths, queue) nbs"
      using False by auto
    with Cons.IH[OF 1 Cons.prems(2) Cons.prems(3)] show ?thesis by metis
  qed
qed

lemma bfs_sound:
  assumes "\<forall>c k. k \<in> set (neighbors adj c) \<longrightarrow> (c, k) \<in> R"
    and "\<forall>y. depths y \<noteq> None \<longrightarrow> (root, y) \<in> R\<^sup>*"
    and "set queue \<subseteq> dom depths"
  shows "\<exists>res. bfs adj depths queue = Inr res \<and> (\<forall>y. res y \<noteq> None \<longrightarrow> (root, y) \<in> R\<^sup>*)"
  using assms
proof (induction adj depths queue rule: bfs.induct)
  case (1 adj depths)
  then show ?case by (simp add: bfs.simps)
next
  case (2 adj depths current queue)
  from "2.prems"(3) obtain cd where cd: "depths current = Some cd" by auto
  let ?v = "visit cd (depths, queue) (neighbors adj current)"
  have cur: "(root, current) \<in> R\<^sup>*" using "2.prems"(2) cd by auto
  have nb: "\<forall>k\<in>set (neighbors adj current). (root, k) \<in> R\<^sup>*"
    using "2.prems"(1) cur by (meson rtrancl.rtrancl_into_rtrancl)
  have q: "set queue \<subseteq> dom depths" using "2.prems"(3) by simp
  have v: "(\<forall>y. fst ?v y \<noteq> None \<longrightarrow> (root, y) \<in> R\<^sup>*) \<and> set (snd ?v) \<subseteq> dom (fst ?v)"
    by (rule visit_sound[OF nb "2.prems"(2) q])
  have "\<exists>res. bfs adj (fst ?v) (snd ?v) = Inr res \<and> (\<forall>y. res y \<noteq> None \<longrightarrow> (root, y) \<in> R\<^sup>*)"
    using "2.IH"[OF cd "2.prems"(1)] v by blast
  then show ?case using cd by (simp add: bfs.simps)
qed

lemma DB_execute_edge_ends_subset:
  "set (DB_execute d select_edge_ends) \<subseteq> stored_calls (working d)"
  by (auto simp: DB_execute_cases stored_calls_def)

lemma traversal_sound:
  "\<exists>depths. traversal_depths d root_id = Inr depths
     \<and> (\<forall>y. depths y \<noteq> None \<longrightarrow> (root_id, y) \<in> (stored_calls (working d))\<^sup>*)"
  unfolding traversal_depths_def
proof (rule bfs_sound)
  show "\<forall>c k. k \<in> set (neighbors (build_adjacency (iter_rows (PyList (DB_execute d select_edge_ends)))) c)
          \<longrightarrow> (c, k) \<in> stored_calls (working d)"
    using DB_execute_edge_ends_subset[of d] by (auto simp: iter_rows_def dest: neighbors_in_rows)
  show "\<forall>y. [root_id \<mapsto> 0::nat] y \<noteq> None \<longrightarrow> (root_id, y) \<in> (stored_calls (working d))\<^sup>*"
    by auto
  show "set [root_id] \<subseteq> dom [root_id \<mapsto> 0::nat]" by simp
qed

text \<open>The batch of updates names only callers that have a depth, and an update leaves the
  rows of every other caller as they are.\<close>

lemma depth_updates_caller:
  "u \<in> set (depth_updates adj depths) \<Longrightarrow> depths (fst (snd u)) \<noteq> None"
proof -
  assume "u \<in> set (depth_updates adj depths)"
  then obtain entry where
    u: "u \<in> set (case depths (fst entry) of
                    None \<Rightarrow> []
                  | Some caller_depth \<Rightarrow>
                      map (\<lambda>callee. (caller_depth, fst entry, callee))
                          (filter (\<lambda>callee. depths callee \<noteq> None) (snd entry)))"
    unfolding depth_updates_def set_concat set_map by blast
  show ?thesis
  proof (cases "depths (fst entry)")
    case None
    then show ?thesis using u by simp
  next
    case (Some cd)
    then show ?thesis using u by auto
  qed
qed

lemma update_keeps_other_callers:
  "fst (snd u) \<noteq> x \<Longrightarrow> update_depth_stmt t u = Inr t' \<Longrightarrow> edges_from x t' = edges_from x t"
proof -
  assume a: "fst (snd u) \<noteq> x" and b: "update_depth_stmt t u = Inr t'"
  obtain dep c k where u: "u = (dep, c, k)" by (cases u) auto
  have "c \<noteq> x" using a u by simp
  then have "filter (\<lambda>r. er_caller_function_id r = x)
               (map (\<lambda>r. if er_caller_function_id r = c \<and> er_callee_function_id r = k
                          then r\<lparr>er_depth := int dep\<rparr> else r) es)
             = filter (\<lambda>r. er_caller_function_id r = x) es" for es :: "edge_row list"
    by (induction es) auto
  then show ?thesis using b u by (auto simp: update_depth_stmt_def edges_from_def)
qed

lemma execute_each_keeps_other_callers:
  "\<forall>u\<in>set us. fst (snd u) \<noteq> x \<Longrightarrow>
   edges_from x (working (snd (execute_each d update_depth_stmt us))) = edges_from x (working d)"
proof (induction us arbitrary: d)
  case Nil
  then show ?case by simp
next
  case (Cons u us)
  show ?case
  proof (cases "conn_execute_write d update_depth_stmt u")
    case (Pair r d')
    show ?thesis
    proof (cases r)
      case None
      then obtain t' where t': "update_depth_stmt (working d) u = Inr t'" "d' = d\<lparr>working := t'\<rparr>"
        using Pair by (auto simp: conn_execute_write_def split: if_splits sum.splits)
      have "edges_from x t' = edges_from x (working d)"
        using Cons.prems t'(1) by (intro update_keeps_other_callers[of u]) auto
      moreover have "edges_from x (working (snd (execute_each d' update_depth_stmt us)))
                     = edges_from x (working d')"
        using Cons.prems by (intro Cons.IH) auto
      ultimately show ?thesis using Pair None t'(2) by simp
    next
      case (Some e)
      then have "d' = d" using Pair by (auto simp: conn_execute_write_def split: if_splits sum.splits)
      then show ?thesis using Pair Some by simp
    qed
  qed
qed

lemma executemany_keeps_other_callers:
  "\<forall>u\<in>set us. fst (snd u) \<noteq> x \<Longrightarrow>
   edges_from x (working (snd (executemany d update_depth_stmt us))) = edges_from x (working d)"
  using execute_each_keeps_other_callers[of us x d]
  by (cases "execute_each d update_depth_stmt us")
     (auto simp: executemany_def commit_def split: option.splits)

lemma assign_depths_frame:
  assumes "(root_id, x) \<notin> (stored_calls (working d))\<^sup>*"
  shows "edges_from x (working (snd (assign_depths d root_id))) = edges_from x (working d)"
proof -
  obtain depths where dp: "traversal_depths d root_id = Inr depths"
    and snd: "\<forall>y. depths y \<noteq> None \<longrightarrow> (root_id, y) \<in> (stored_calls (working d))\<^sup>*"
    using traversal_sound[of d root_id] by blast
  have x: "depths x = None" using assms snd by auto
  let ?adj = "build_adjacency (iter_rows (PyList (DB_execute d select_edge_ends)))"
  have us: "\<forall>u\<in>set (depth_updates ?adj depths). fst (snd u) \<noteq> x"
  proof
    fix u assume "u \<in> set (depth_updates ?adj depths)"
    then have "depths (fst (snd u)) \<noteq> None" by (rule depth_updates_caller)
    with x show "fst (snd u) \<noteq> x" by auto
  qed
  have b: "bfs ?adj [root_id \<mapsto> 0] [root_id] = Inr depths"
    using dp by (simp add: traversal_depths_def)
  show ?thesis
    using executemany_keeps_other_callers[OF us, of d]
    by (simp add: assign_depths_def Let_def b)
qed

subsection \<open>Functions that cannot be reached\<close>

text \<open>The depth summary has one row for each depth that a stored edge has, in ascending
  order, with the number of distinct callers and the number of edges at that depth.\<close>

lemma depth_summary_rows:
  assumes "has_schema d"
  shows "map fst (depth_summary d) = sort (remdups (map er_depth (t_edges (working d))))
    \<and> (\<forall>row\<in>set (depth_summary d).
          fst (snd row)
            = card (er_caller_function_id ` {r \<in> set (t_edges (working d)). er_depth r = fst row})
          \<and> snd (snd row)
            = length (filter (\<lambda>r. er_depth r = fst row) (t_edges (working d))))"
proof -
  have d: "depth_summary d = select_depth_summary (working d)"
    using assms by (simp add: depth_summary_def DB_execute_cases)
  have c: "length (remdups (map er_caller_function_id (filter (\<lambda>r. er_depth r = dep) es)))
           = card (er_caller_function_id ` {r \<in> set es. er_depth r = dep})"
    for dep and es :: "edge_row list"
    by (simp add: length_remdups_card_conv)
  show ?thesis unfolding d select_depth_summary_def
    by (auto simp: comp_def c)
qed

text \<open>In the database \<open>stale_db\<close> the function \<open>x\<close> cannot be reached from \<open>f1\<close>; the
  traversal from \<open>f1\<close> leaves the database as it is, and the depth summary has a row for
  the depth 3 of the edge \<open>x \<rightarrow> y\<close>.\<close>

lemma stale_unreachable: "(''f1'', ''x'') \<notin> (stored_calls (working stale_db))\<^sup>*"
proof
  assume a: "(''f1'', ''x'') \<in> (stored_calls (working stale_db))\<^sup>*"
  have R: "stored_calls (working stale_db) = {(''f1'', ''f2''), (''x'', ''y'')}"
    by (auto simp: stored_calls_def stale_db_def settled_def select_edge_ends_def)
  have "(''f1'', z) \<in> {(''f1'', ''f2''), (''x'', ''y'')}\<^sup>* \<Longrightarrow> z = ''f1'' \<or> z = ''f2''" for z
    by (induction rule: rtrancl_induct) auto
  with a R show False by auto
qed

lemma stale_assign:
  "assign_depths stale_db ''f1'' = (None, stale_db)"
proof -
  have adj: "build_adjacency (iter_rows (PyList (DB_execute stale_db select_edge_ends)))
             = [(''f1'', [''f2'']), (''x'', [''y''])]"
    by (simp add: build_adjacency_def DB_execute_cases iter_rows_def select_edge_ends_def
          stale_db_def settled_def)
  have b: "bfs [(''f1'', [''f2'']), (''x'', [''y''])] [''f1'' \<mapsto> 0] [''f1'']
           = Inr [''f1'' \<mapsto> 0, ''f2'' \<mapsto> 1]"
    by (simp add: bfs.simps neighbors_def)
  have u: "depth_updates [(''f1'', [''f2'']), (''x'', [''y''])] [''f1'' \<mapsto> 0, ''f2'' \<mapsto> 1]
           = [(0, ''f1'', ''f2'')]"
    by (simp add: depth_updates_def)
  show ?thesis
    unfolding assign_depths_def Let_def adj b sum.case u
    by (simp add: executemany_def conn_execute_write_def update_depth_stmt_def commit_def
          stale_db_def settled_def)
qed

lemma stale_summary: "depth_summary stale_db = [(0, 1, 1), (3, 1, 1)]"
  by (simp add: depth_summary_def DB_execute_cases select_depth_summary_def stale_db_def
        settled_def)

lemma stale_load:
  "depth_summary (snd (load_callgraph stale_db scenario_graph ''main'')) = [(0, 1, 1), (3, 1, 1)]"
proof -
  have h: "has_schema stale_db" by (simp add: stale_db_def settled_def)
  have l: "\<forall>cs\<in>set (g_callsites scenario_graph). line_fits cs"
    by (simp add: scenario_graph_def line_fits_def)
  show ?thesis
    unfolding load_ok[OF h l]
    by (simp add: depth_summary_def DB_execute_cases select_depth_summary_def settled_def
          store_callsites_def store_functions_def stale_db_def)
qed

text \<open>
  Claim C8, as amended. For a function \<open>x\<close> with no path from the root along the stored
  edges: the traversal ends and gives \<open>x\<close> no depth, and the batch of updates leaves every
  row of an edge that \<open>x\<close> emits as it was. The depth summary does not look at what can be
  reached: on a database with tables it has one row for each depth that a stored edge has,
  in ascending order, with the number of distinct callers and the number of edges stored at
  that depth.
\<close>

theorem unreachable_edges_keep_depth:
  assumes "(root_id, x) \<notin> (stored_calls (working d))\<^sup>*"
  shows "(\<exists>depths. traversal_depths d root_id = Inr depths \<and> depths x = None)
    \<and> edges_from x (working (snd (assign_depths d root_id))) = edges_from x (working d)
    \<and> (has_schema d \<longrightarrow>
          map fst (depth_summary d) = sort (remdups (map er_depth (t_edges (working d))))
          \<and> (\<forall>row\<in>set (depth_summary d).
                fst (snd row)
                  = card (er_caller_function_id `
                            {r \<in> set (t_edges (working d)). er_depth r = fst row})
                \<and> snd (snd row)
                  = length (filter (\<lambda>r. er_depth r = fst row) (t_edges (working d)))))"
proof -
  obtain depths where "traversal_depths d root_id = Inr depths"
    and "\<forall>y. depths y \<noteq> None \<longrightarrow> (root_id, y) \<in> (stored_calls (working d))\<^sup>*"
    using traversal_sound[of d root_id] by blast
  then have 1: "\<exists>depths. traversal_depths d root_id = Inr depths \<and> depths x = None"
    using assms by auto
  show ?thesis using 1 assign_depths_frame[OF assms] depth_summary_rows[of d] by blast
qed

theorem unreachable_edges_keep_depth_witness:
  "(''f1'', ''x'') \<notin> (stored_calls (working stale_db))\<^sup>*
   \<and> traversal_depths stale_db ''f1'' = Inr [''f1'' \<mapsto> 0, ''f2'' \<mapsto> 1]
   \<and> edges_from ''x'' (working (snd (assign_depths stale_db ''f1'')))
       = [\<lparr>er_caller_function_id = ''x'', er_callee_function_id = ''y'',
           er_callsite_id = None, er_depth = 3\<rparr>]
   \<and> has_schema stale_db
   \<and> map fst (depth_summary stale_db) = [0, 3]"
proof -
  have t: "traversal_depths stale_db ''f1'' = Inr [''f1'' \<mapsto> 0, ''f2'' \<mapsto> 1]"
    by (simp add: traversal_depths_def build_adjacency_def DB_execute_cases iter_rows_def
          select_edge_ends_def stale_db_def settled_def bfs.simps neighbors_def)
  have e: "edges_from ''x'' (working stale_db)
       = [\<lparr>er_caller_function_id = ''x'', er_callee_function_id = ''y'',
           er_callsite_id = None, er_depth = 3\<rparr>]"
    by (simp add: edges_from_def stale_db_def settled_def)
  have h: "has_schema stale_db" by (simp add: stale_db_def settled_def)
  have k: "edges_from ''x'' (working (snd (assign_depths stale_db ''f1'')))
           = edges_from ''x'' (working stale_db)"
    by (rule conjunct1[OF conjunct2[OF unreachable_edges_keep_depth[OF stale_unreachable]]])
  show ?thesis
    unfolding k e t stale_summary using stale_unreachable h by simp
qed

text \<open>
  The claim as stated fails where an edge of a function that cannot be reached holds a depth
  from an earlier state of the store: the edge keeps its depth 3 through the traversal and
  through a load, and the depth summary reports it.
\<close>

theorem depth_summary_reports_unreachable:
  "(''f1'', ''x'') \<notin> (stored_calls (working stale_db))\<^sup>*
   \<and> depth_summary (snd (assign_depths stale_db ''f1'')) = [(0, 1, 1), (3, 1, 1)]
   \<and> depth_summary (snd (load_callgraph stale_db scenario_graph ''main'')) = [(0, 1, 1), (3, 1, 1)]
   \<and> map er_depth (edges_from ''x'' (working (snd (assign_depths stale_db ''f1'')))) = [3]"
  by (simp add: stale_unreachable stale_assign stale_summary stale_load)
     (simp add: edges_from_def stale_db_def settled_def)

subsection \<open>What every load does, and what \<open>get_callees\<close> reads\<close>

text \<open>No load returns normally, and a load on a database with tables leaves the rows of
  the edges as the connection saw them before.\<close>

lemma load_callgraph_always_raises: "fst (load_callgraph d g r) \<noteq> None"
  by (auto simp: load_callgraph_def and_then_def compute_depths_raises split: prod.splits option.splits)

lemma load_callgraph_stores_no_edge:
  "has_schema d \<Longrightarrow> t_edges (committed (snd (load_callgraph d g r))) = t_edges (working d)"
  by (cases "\<forall>cs\<in>set (g_callsites g). line_fits cs")
     (simp_all add: load_ok load_overflowing settled_def store_callsites_def store_functions_def)

text \<open>On the rows that are stored, \<open>get_callees\<close> returns, without repetition and ordered
  by name, the functions that are the callee of an edge whose caller matches the argument
  by id or by name.\<close>

lemma get_callees_rows:
  assumes "has_schema d"
  shows "set (get_callees d x)
         = {f \<in> set (t_functions (working d)).
              \<exists>e\<in>set (t_edges (working d)). \<exists>c\<in>set (t_functions (working d)).
                er_callee_function_id e = fr_id f \<and> er_caller_function_id e = fr_id c
                \<and> (fr_id c = x \<or> fr_name c = x)}
         \<and> distinct (get_callees d x) \<and> sorted (map fr_name (get_callees d x))"
proof -
  have g: "get_callees d x = select_callees x (working d)"
    using assms by (simp add: get_callees_def DB_execute_cases)
  show ?thesis unfolding g select_callees_def
    by (auto split: if_splits)
qed

end
